theory Spec2Isabelle
  imports Main
begin

section \<open>Python values and exceptions\<close>

text \<open>
  The exceptions the modelled code can raise. \<open>ValueError\<close> is also what the
  platform's pin constructor raises when it refuses a pin.
\<close>

datatype py_error = ZeroDivisionError | IndexError | ValueError | AttributeError

text \<open>
  Subscripts: an index from \<open>-len\<close> up to \<open>len - 1\<close> names a position, the negative
  ones counted from the end; any other index raises \<open>IndexError\<close>.
\<close>

definition py_index :: "nat \<Rightarrow> int \<Rightarrow> py_error + nat" where
  "py_index len i =
     (if 0 \<le> i \<and> i < int len then Inr (nat i)
      else if - int len \<le> i \<and> i < 0 then Inr (nat (int len + i))
      else Inl IndexError)"

text \<open>Sequencing of computations that may raise.\<close>

definition bind_err :: "py_error + 'a \<Rightarrow> ('a \<Rightarrow> py_error + 'b) \<Rightarrow> py_error + 'b" where
  "bind_err m f = (case m of Inl e \<Rightarrow> Inl e | Inr a \<Rightarrow> f a)"

definition py_getitem :: "'a list \<Rightarrow> int \<Rightarrow> py_error + 'a" where
  "py_getitem xs i = bind_err (py_index (length xs) i) (\<lambda>j. Inr (xs ! j))"

definition py_setitem :: "'a list \<Rightarrow> int \<Rightarrow> 'a \<Rightarrow> py_error + 'a list" where
  "py_setitem xs i x = bind_err (py_index (length xs) i) (\<lambda>j. Inr (xs[j := x]))"

definition py_mod :: "nat \<Rightarrow> nat \<Rightarrow> py_error + nat" where
  "py_mod a b = (if b = 0 then Inl ZeroDivisionError else Inr (a mod b))"

definition py_floordiv :: "nat \<Rightarrow> nat \<Rightarrow> py_error + nat" where
  "py_floordiv a b = (if b = 0 then Inl ZeroDivisionError else Inr (a div b))"

section \<open>The candidate enumerator\<close>

text \<open>
  The inner loop of \<open>_product\<close>: for every \<open>s\<close> of \<open>range(1, repeat)\<close>,
  \<open>ns = n ** s\<close>, \<open>i_s = (k // ns) % n\<close> and \<open>v[repeat - s - 1] = items[i_s]\<close>.
  The list \<open>v\<close> starts as \<open>[None] * repeat\<close>, so its entries are optional items.
\<close>

fun product_fill ::
  "'a list \<Rightarrow> nat \<Rightarrow> nat \<Rightarrow> nat list \<Rightarrow> 'a option list \<Rightarrow> py_error + 'a option list" where
  "product_fill items repeat k [] v = Inr v"
| "product_fill items repeat k (s # ss) v =
     (let n = length items; ns = n ^ s in
      bind_err (py_floordiv k ns) (\<lambda>q.
      bind_err (py_mod q n) (\<lambda>i_s.
      bind_err (py_getitem items (int i_s)) (\<lambda>x.
      bind_err (py_setitem v (int repeat - int s - 1) (Some x)) (\<lambda>v'.
      product_fill items repeat k ss v')))))"

text \<open>
  One iteration of the outer loop: the tuple yielded for the counter \<open>k\<close>. After the
  inner loop every slot of \<open>v\<close> holds an item (lemmas \<open>product_fill_nth\<close> and
  \<open>product_tuple_digits\<close> below), and \<open>tuple(v)\<close> is the list of these items. The
  counter and the arity are naturals; the callers pass the arities 3 and 4.
\<close>

definition product_tuple :: "'a list \<Rightarrow> nat \<Rightarrow> nat \<Rightarrow> py_error + 'a list" where
  "product_tuple items repeat k =
     (let n = length items in
      bind_err (py_mod k n) (\<lambda>i_0.
      bind_err (py_getitem items (int i_0)) (\<lambda>x0.
      bind_err (py_setitem (replicate repeat None) (int repeat - 1) (Some x0)) (\<lambda>v.
      bind_err (product_fill items repeat k [1..<repeat] v) (\<lambda>v'.
      Inr (map the v'))))))"

text \<open>
  The generator, consumed to the end: the tuples in the order they are yielded, or the
  first exception raised while producing them.
\<close>

fun collect :: "(nat \<Rightarrow> py_error + 'b) \<Rightarrow> nat list \<Rightarrow> py_error + 'b list" where
  "collect f [] = Inr []"
| "collect f (k # ks) =
     bind_err (f k) (\<lambda>t. bind_err (collect f ks) (\<lambda>ts. Inr (t # ts)))"

definition product_gen :: "'a list \<Rightarrow> nat \<Rightarrow> py_error + 'a list list" where
  "product_gen items repeat =
     (let n = length items; total = n ^ repeat
      in collect (product_tuple items repeat) [0..<total])"

text \<open>
  For \<open>repeat = 0\<close> the generator raises at its first tuple: \<open>k % n\<close> divides by zero
  on an empty pool, and \<open>v[repeat - 1]\<close> indexes the empty list otherwise.
\<close>

text \<open>
  \<open>list(filter(lambda item: len(set(item)) == count, combs))\<close>, the candidates of a
  scan.
\<close>

definition candidates :: "'a list \<Rightarrow> nat \<Rightarrow> py_error + 'a list list" where
  "candidates pins_scope count =
     bind_err (product_gen pins_scope count)
       (\<lambda>combs. Inr (filter (\<lambda>item. card (set item) = count) combs))"

text \<open>
  The specification's description of the order: the Cartesian product of the pool with
  itself \<open>k\<close> times as nested loops, the rightmost position innermost.
\<close>

fun cartesian_power :: "nat \<Rightarrow> 'a list \<Rightarrow> 'a list list" where
  "cartesian_power 0 pool = [[]]"
| "cartesian_power (Suc k) pool =
     concat (map (\<lambda>x. map (\<lambda>t. x # t) (cartesian_power k pool)) pool)"

text \<open>
  The tuple for the counter \<open>k\<close> written by position: position \<open>p\<close> holds the digit
  of weight \<open>n ^ (repeat - 1 - p)\<close> of \<open>k\<close> in base \<open>n\<close>.
\<close>

definition digit_tuple :: "'a list \<Rightarrow> nat \<Rightarrow> nat \<Rightarrow> 'a list" where
  "digit_tuple items repeat k =
     map (\<lambda>p. items ! ((k div length items ^ (repeat - 1 - p)) mod length items)) [0..<repeat]"

section \<open>Lines, events and the module state\<close>

text \<open>
  The platform module \<open>pyb\<close> is not part of the repository. It is a parameter of the
  model: an adapter says which pins the constructor \<open>pyb.Pin(p, mode)\<close> accepts, and
  which level a read of a line returns after a given history of line events (the target
  board). Every line operation is recorded as an event, in the order it happens.
\<close>

datatype mode = OUT_PP | IN

datatype 'p event =
    Configure 'p mode
  | SetLevel 'p bool
  | Delay nat
  | ReadLevel 'p bool

record 'p adapter =
  accepts :: "'p \<Rightarrow> mode \<Rightarrow> bool"
  level :: "'p event list \<Rightarrow> 'p \<Rightarrow> bool"

text \<open>
  The two calls of \<open>log.info\<close>: the message of \<open>bypass_search\<close> carries the four pins,
  the message of \<open>idcode_search\<close> the three pins and the response. The log of the model
  is the list of these calls, in order; whether the logger writes a call to its stream
  depends on the level configured in the logging module.
\<close>

datatype 'p log_entry = BypassInfo 'p 'p 'p 'p | IdcodeInfo 'p 'p 'p string

text \<open>
  The module-level variables \<open>TMS\<close>, \<open>TDI\<close>, \<open>TCK\<close>, \<open>TDO\<close> (\<open>None\<close> until a search
  binds them), with the events emitted and the messages logged so far.
\<close>

record 'p module_state =
  TMS :: "'p option"
  TDI :: "'p option"
  TCK :: "'p option"
  TDO :: "'p option"
  trace :: "'p event list"
  log :: "'p log_entry list"

definition fresh_module :: "'p module_state" where
  "fresh_module = \<lparr>TMS = None, TDI = None, TCK = None, TDO = None, trace = [], log = []\<rparr>"

record 'p jtagulator =
  name :: string
  pins_scope :: "'p list"

text \<open>
  A statement of the program: it changes the state and either returns a value or raises.
  The effects made before an exception stay.
\<close>

type_synonym ('p, 'a) io = "'p module_state \<Rightarrow> (py_error + 'a) \<times> 'p module_state"

definition return_io :: "'a \<Rightarrow> ('p, 'a) io" where
  "return_io a s = (Inr a, s)"

definition raise_io :: "py_error \<Rightarrow> ('p, 'a) io" where
  "raise_io e s = (Inl e, s)"

definition lift_io :: "py_error + 'a \<Rightarrow> ('p, 'a) io" where
  "lift_io r s = (r, s)"

definition bind_io :: "('p, 'a) io \<Rightarrow> ('a \<Rightarrow> ('p, 'b) io) \<Rightarrow> ('p, 'b) io" where
  "bind_io m f s = (case m s of (Inl e, s') \<Rightarrow> (Inl e, s') | (Inr a, s') \<Rightarrow> f a s')"

definition emit :: "'p event \<Rightarrow> ('p, unit) io" where
  "emit ev s = (Inr (), s\<lparr>trace := trace s @ [ev]\<rparr>)"

text \<open>\<open>pyb.delay(ms)\<close>.\<close>

definition delay :: "nat \<Rightarrow> ('p, unit) io" where
  "delay ms = emit (Delay ms)"

text \<open>
  Looking up the method \<open>value\<close> of a line handle: a variable that is still \<open>None\<close>
  has no such attribute.
\<close>

definition pin_value_attr :: "'p option \<Rightarrow> ('p, 'p) io" where
  "pin_value_attr h = (case h of None \<Rightarrow> raise_io AttributeError | Some p \<Rightarrow> return_io p)"

text \<open>
  \<open>pin.value()\<close>: the level the adapter reports after the events so far. The platform
  returns it as 0 or 1; the model keeps it as a truth value and \<open>bit_char\<close> is its
  \<open>str\<close>. \<open>pin.value(x)\<close> drives the line high when \<open>x\<close> is true or a non-zero
  integer.
\<close>

definition pin_read :: "'p adapter \<Rightarrow> 'p \<Rightarrow> ('p, bool) io" where
  "pin_read env p s =
     (let b = level env (trace s) p in (Inr b, s\<lparr>trace := trace s @ [ReadLevel p b]\<rparr>))"

text \<open>\<open>pyb.Pin(p, mode)\<close>: the handle of the pin, or \<open>ValueError\<close> when refused.\<close>

definition pyb_Pin :: "'p adapter \<Rightarrow> 'p \<Rightarrow> mode \<Rightarrow> ('p, 'p) io" where
  "pyb_Pin env p m s =
     (if accepts env p m then (Inr p, s\<lparr>trace := trace s @ [Configure p m]\<rparr>)
      else (Inl ValueError, s))"

definition log_info :: "'p log_entry \<Rightarrow> ('p, unit) io" where
  "log_info entry s = (Inr (), s\<lparr>log := log s @ [entry]\<rparr>)"

text \<open>\<open>int(c)\<close> of a one-character string, and \<open>str\<close> of a sampled level.\<close>

definition py_int :: "char \<Rightarrow> py_error + int" where
  "py_int c =
     (if c \<in> set ''0123456789'' then Inr (int (of_char c) - 48) else Inl ValueError)"

definition bit_char :: "bool \<Rightarrow> char" where
  "bit_char b = (if b then CHR ''1'' else CHR ''0'')"

section \<open>The bit clocker\<close>

definition JTAG_PINS_BYPASS_COUNT :: nat where
  "JTAG_PINS_BYPASS_COUNT = 4"

definition JTAG_PINS_IDCODE_COUNT :: nat where
  "JTAG_PINS_IDCODE_COUNT = 3"

definition JTAG_BYPASS_PATTERN :: string where
  "JTAG_BYPASS_PATTERN = ''01101110011110001111110110111001111000111111''"

definition MAX_IR_LEN :: nat where
  "MAX_IR_LEN = 32"

text \<open>The loop \<open>for k in range(total): pins[k].value(states[k])\<close>.\<close>

fun set_lines :: "'p option list \<Rightarrow> int list \<Rightarrow> nat list \<Rightarrow> ('p, unit) io" where
  "set_lines pins states [] = return_io ()"
| "set_lines pins states (k # ks) =
     bind_io (lift_io (py_getitem pins (int k))) (\<lambda>h.
     bind_io (pin_value_attr h) (\<lambda>p.
     bind_io (lift_io (py_getitem states (int k))) (\<lambda>v.
     bind_io (emit (SetLevel p (v \<noteq> 0))) (\<lambda>_.
     set_lines pins states ks))))"

definition io_values :: "'p adapter \<Rightarrow> 'p option list \<Rightarrow> int list \<Rightarrow> ('p, bool) io" where
  "io_values env pins states =
     (let total = length pins in
      bind_io (\<lambda>s. pin_value_attr (TCK s) s) (\<lambda>ck.
      bind_io (emit (SetLevel ck False)) (\<lambda>_.
      bind_io (delay 0) (\<lambda>_.
      bind_io (set_lines pins states [0..<total]) (\<lambda>_.
      bind_io (delay 0) (\<lambda>_.
      bind_io (\<lambda>s. pin_value_attr (TCK s) s) (\<lambda>ck.
      bind_io (emit (SetLevel ck True)) (\<lambda>_.
      bind_io (delay 0) (\<lambda>_.
      bind_io (\<lambda>s. pin_value_attr (TCK s) s) (\<lambda>ck.
      bind_io (emit (SetLevel ck False)) (\<lambda>_.
      bind_io (delay 0) (\<lambda>_.
      bind_io (\<lambda>s. pin_value_attr (TDO s) s) (\<lambda>d.
      pin_read env d)))))))))))))"

text \<open>The list comprehensions of \<open>_io_tms_tdi\<close> and \<open>_io_tms\<close>, then the join.\<close>

fun io_tms_tdi_loop :: "'p adapter \<Rightarrow> (char \<times> char) list \<Rightarrow> ('p, bool list) io" where
  "io_tms_tdi_loop env [] = return_io []"
| "io_tms_tdi_loop env ((tms, tdi) # rest) =
     bind_io (\<lambda>s. return_io [TMS s, TDI s] s) (\<lambda>pins.
     bind_io (lift_io (py_int tms)) (\<lambda>a.
     bind_io (lift_io (py_int tdi)) (\<lambda>b.
     bind_io (io_values env pins [a, b]) (\<lambda>r.
     bind_io (io_tms_tdi_loop env rest) (\<lambda>rs.
     return_io (r # rs))))))"

definition io_tms_tdi :: "'p adapter \<Rightarrow> string \<Rightarrow> string \<Rightarrow> ('p, string) io" where
  "io_tms_tdi env tms_values tdi_values =
     bind_io (io_tms_tdi_loop env (zip tms_values tdi_values)) (\<lambda>result.
     return_io (map bit_char result))"

fun io_tms_loop :: "'p adapter \<Rightarrow> string \<Rightarrow> ('p, bool list) io" where
  "io_tms_loop env [] = return_io []"
| "io_tms_loop env (v # rest) =
     bind_io (\<lambda>s. return_io [TMS s] s) (\<lambda>pins.
     bind_io (lift_io (py_int v)) (\<lambda>a.
     bind_io (io_values env pins [a]) (\<lambda>r.
     bind_io (io_tms_loop env rest) (\<lambda>rs.
     return_io (r # rs)))))"

definition io_tms :: "'p adapter \<Rightarrow> string \<Rightarrow> ('p, string) io" where
  "io_tms env values =
     bind_io (io_tms_loop env values) (\<lambda>result. return_io (map bit_char result))"

section \<open>The TAP macro-sequences and the two tests\<close>

definition restore_idle :: "'p adapter \<Rightarrow> ('p, unit) io" where
  "restore_idle env = bind_io (io_tms env ''111110'') (\<lambda>_. return_io ())"

definition enter_shift_ir :: "'p adapter \<Rightarrow> ('p, unit) io" where
  "enter_shift_ir env = bind_io (io_tms env ''1100'') (\<lambda>_. return_io ())"

definition enter_shift_dr :: "'p adapter \<Rightarrow> ('p, unit) io" where
  "enter_shift_dr env = bind_io (io_tms env ''100'') (\<lambda>_. return_io ())"

text \<open>
  \<open>'0' * (num - 1)\<close> is the empty string when \<open>num\<close> is 0, as the truncating
  subtraction gives.
\<close>

definition shift_array :: "'p adapter \<Rightarrow> string \<Rightarrow> ('p, string) io" where
  "shift_array env data =
     (let num = length data in
      (\<lambda>s. if TDI s = None then io_tms env data s
           else io_tms_tdi env (replicate (num - 1) CHR ''0'' @ ''1'') data s))"

text \<open>
  The tests return \<open>''.join(...)\<close> of a string, which is the string itself, and of a
  reversed string, which is its reversal.
\<close>

definition send_data :: "'p adapter \<Rightarrow> string \<Rightarrow> ('p, string) io" where
  "send_data env data =
     bind_io (enter_shift_dr env) (\<lambda>_.
     bind_io (shift_array env data) (\<lambda>result.
     bind_io (io_tms env ''10'') (\<lambda>_.
     return_io result)))"

definition bypass_test :: "'p adapter \<Rightarrow> string \<Rightarrow> ('p, string) io" where
  "bypass_test env pattern =
     bind_io (restore_idle env) (\<lambda>_.
     bind_io (enter_shift_ir env) (\<lambda>_.
     bind_io (io_tms_tdi env (replicate MAX_IR_LEN CHR ''0'') (replicate MAX_IR_LEN CHR ''1'')) (\<lambda>_.
     bind_io (io_tms env ''110'') (\<lambda>_.
     send_data env pattern))))"

definition idcode_test :: "'p adapter \<Rightarrow> ('p, string) io" where
  "idcode_test env =
     bind_io (restore_idle env) (\<lambda>_.
     bind_io (enter_shift_dr env) (\<lambda>_.
     bind_io (shift_array env (replicate 32 CHR ''0'')) (\<lambda>result.
     bind_io (io_tms env ''010'') (\<lambda>_.
     return_io (rev result)))))"

section \<open>The scan engine\<close>

fun for_each :: "'c list \<Rightarrow> ('c \<Rightarrow> ('p, unit) io) \<Rightarrow> ('p, unit) io" where
  "for_each [] body = return_io ()"
| "for_each (comb # rest) body = bind_io (body comb) (\<lambda>_. for_each rest body)"

text \<open>The body of the loop of \<open>bypass_search\<close>, for one candidate.\<close>

definition bypass_candidate :: "'p adapter \<Rightarrow> 'p list \<Rightarrow> ('p, unit) io" where
  "bypass_candidate env comb =
     bind_io (lift_io (py_getitem comb 0)) (\<lambda>c0.
     bind_io (pyb_Pin env c0 OUT_PP) (\<lambda>tms.
     bind_io (\<lambda>s. (Inr (), s\<lparr>TMS := Some tms\<rparr>)) (\<lambda>_.
     bind_io (lift_io (py_getitem comb 1)) (\<lambda>c1.
     bind_io (pyb_Pin env c1 OUT_PP) (\<lambda>tdi.
     bind_io (\<lambda>s. (Inr (), s\<lparr>TDI := Some tdi\<rparr>)) (\<lambda>_.
     bind_io (lift_io (py_getitem comb 2)) (\<lambda>c2.
     bind_io (pyb_Pin env c2 OUT_PP) (\<lambda>tck.
     bind_io (\<lambda>s. (Inr (), s\<lparr>TCK := Some tck\<rparr>)) (\<lambda>_.
     bind_io (lift_io (py_getitem comb 3)) (\<lambda>c3.
     bind_io (pyb_Pin env c3 IN) (\<lambda>tdo.
     bind_io (\<lambda>s. (Inr (), s\<lparr>TDO := Some tdo\<rparr>)) (\<lambda>_.
     bind_io (bypass_test env JTAG_BYPASS_PATTERN) (\<lambda>response.
     if response = JTAG_BYPASS_PATTERN
     then log_info (BypassInfo c0 c1 c2 c3)
     else return_io ())))))))))))))"

definition bypass_search :: "'p adapter \<Rightarrow> 'p jtagulator \<Rightarrow> ('p, unit) io" where
  "bypass_search env self =
     bind_io (lift_io (candidates (pins_scope self) JTAG_PINS_BYPASS_COUNT)) (\<lambda>filtered.
     for_each filtered (bypass_candidate env))"

text \<open>The body of the loop of \<open>idcode_search\<close>; it assigns no \<open>TDI\<close>.\<close>

definition idcode_candidate :: "'p adapter \<Rightarrow> 'p list \<Rightarrow> ('p, unit) io" where
  "idcode_candidate env comb =
     bind_io (lift_io (py_getitem comb 0)) (\<lambda>c0.
     bind_io (pyb_Pin env c0 OUT_PP) (\<lambda>tms.
     bind_io (\<lambda>s. (Inr (), s\<lparr>TMS := Some tms\<rparr>)) (\<lambda>_.
     bind_io (lift_io (py_getitem comb 1)) (\<lambda>c1.
     bind_io (pyb_Pin env c1 OUT_PP) (\<lambda>tck.
     bind_io (\<lambda>s. (Inr (), s\<lparr>TCK := Some tck\<rparr>)) (\<lambda>_.
     bind_io (lift_io (py_getitem comb 2)) (\<lambda>c2.
     bind_io (pyb_Pin env c2 IN) (\<lambda>tdo.
     bind_io (\<lambda>s. (Inr (), s\<lparr>TDO := Some tdo\<rparr>)) (\<lambda>_.
     bind_io (idcode_test env) (\<lambda>response.
     if response \<noteq> ''11111111111111111111111111111111''
        \<and> response \<noteq> ''00000000000000000000000000000000''
     then log_info (IdcodeInfo c0 c1 c2 response)
     else return_io ()))))))))))"

definition idcode_search :: "'p adapter \<Rightarrow> 'p jtagulator \<Rightarrow> ('p, unit) io" where
  "idcode_search env self =
     bind_io (lift_io (candidates (pins_scope self) JTAG_PINS_IDCODE_COUNT)) (\<lambda>filtered.
     for_each filtered (idcode_candidate env))"

section \<open>Describing what a run emits\<close>

text \<open>
  The shape of one clock cycle as the specification words it: clock low, the data lines
  set, clock high, clock low, then the sample. \<open>pulse\<close> is the part before the sample.
\<close>

definition pulse :: "'p \<Rightarrow> ('p \<times> bool) list \<Rightarrow> 'p event list" where
  "pulse ck outs =
     [SetLevel ck False, Delay 0] @ map (\<lambda>(p, v). SetLevel p v) outs @
     [Delay 0, SetLevel ck True, Delay 0, SetLevel ck False, Delay 0]"

definition clock_cycle :: "'p \<Rightarrow> 'p \<Rightarrow> ('p \<times> bool) list \<Rightarrow> bool \<Rightarrow> 'p event list" where
  "clock_cycle ck d outs b = pulse ck outs @ [ReadLevel d b]"

text \<open>
  A script is the list of the outputs applied at each clock. \<open>run_script\<close> gives the
  levels the adapter reports when a script is clocked after the history \<open>tr\<close>, and
  \<open>script_trace\<close> the events of the script with given samples.
\<close>

fun run_script ::
  "'p adapter \<Rightarrow> 'p \<Rightarrow> 'p \<Rightarrow> 'p event list \<Rightarrow> ('p \<times> bool) list list \<Rightarrow> bool list" where
  "run_script env ck d tr [] = []"
| "run_script env ck d tr (outs # rest) =
     (let b = level env (tr @ pulse ck outs) d
      in b # run_script env ck d (tr @ clock_cycle ck d outs b) rest)"

definition script_trace ::
  "'p \<Rightarrow> 'p \<Rightarrow> ('p \<times> bool) list list \<Rightarrow> bool list \<Rightarrow> 'p event list" where
  "script_trace ck d script bits =
     concat (map (\<lambda>(outs, b). clock_cycle ck d outs b) (zip script bits))"

definition run_cycles ::
  "'p adapter \<Rightarrow> 'p \<Rightarrow> 'p \<Rightarrow> ('p \<times> bool) list list \<Rightarrow> 'p module_state \<Rightarrow> 'p module_state" where
  "run_cycles env ck d script s =
     s\<lparr>trace := trace s @ script_trace ck d script (run_script env ck d (trace s) script)\<rparr>"

definition is_bit :: "char \<Rightarrow> bool" where
  "is_bit c = (c = CHR ''0'' \<or> c = CHR ''1'')"

definition tms_script :: "'p \<Rightarrow> string \<Rightarrow> ('p \<times> bool) list list" where
  "tms_script m vs = map (\<lambda>c. [(m, c = CHR ''1'')]) vs"

definition tms_tdi_script :: "'p \<Rightarrow> 'p \<Rightarrow> string \<Rightarrow> string \<Rightarrow> ('p \<times> bool) list list" where
  "tms_tdi_script m i tms_values tdi_values =
     map (\<lambda>(a, b). [(m, a = CHR ''1''), (i, b = CHR ''1'')]) (zip tms_values tdi_values)"

text \<open>The scripts of the two tests, by the lines bound when they run.\<close>

definition bypass_script :: "'p \<Rightarrow> 'p \<Rightarrow> string \<Rightarrow> ('p \<times> bool) list list" where
  "bypass_script m i pattern =
     tms_script m ''111110'' @ tms_script m ''1100'' @
     tms_tdi_script m i (replicate 32 CHR ''0'') (replicate 32 CHR ''1'') @
     tms_script m ''110'' @ tms_script m ''100'' @
     tms_tdi_script m i (replicate (length pattern - 1) CHR ''0'' @ ''1'') pattern @
     tms_script m ''10''"

definition idcode_script :: "'p \<Rightarrow> 'p option \<Rightarrow> ('p \<times> bool) list list" where
  "idcode_script m tdi =
     tms_script m ''111110'' @ tms_script m ''100'' @
     (case tdi of
        None \<Rightarrow> tms_script m (replicate 32 CHR ''0'')
      | Some i \<Rightarrow> tms_tdi_script m i (replicate 31 CHR ''0'' @ ''1'') (replicate 32 CHR ''0'')) @
     tms_script m ''010''"

text \<open>
  Projections of a trace: the sampled levels, the events on lines, the levels driven on
  one line.
\<close>

fun sample_of :: "'p event \<Rightarrow> bool list" where
  "sample_of (ReadLevel p b) = [b]"
| "sample_of (Configure p m) = []"
| "sample_of (SetLevel p v) = []"
| "sample_of (Delay ms) = []"

definition samples :: "'p event list \<Rightarrow> bool list" where
  "samples tr = concat (map sample_of tr)"

fun is_delay :: "'p event \<Rightarrow> bool" where
  "is_delay (Delay ms) = True"
| "is_delay (Configure p m) = False"
| "is_delay (SetLevel p v) = False"
| "is_delay (ReadLevel p b) = False"

definition line_events :: "'p event list \<Rightarrow> 'p event list" where
  "line_events tr = filter (\<lambda>e. \<not> is_delay e) tr"

fun driven_of :: "'p \<Rightarrow> 'p event \<Rightarrow> bool list" where
  "driven_of q (SetLevel p v) = (if p = q then [v] else [])"
| "driven_of q (Configure p m) = []"
| "driven_of q (Delay ms) = []"
| "driven_of q (ReadLevel p b) = []"

definition driven :: "'p \<Rightarrow> 'p event list \<Rightarrow> bool list" where
  "driven q tr = concat (map (driven_of q) tr)"

text \<open>The events a statement added to the trace.\<close>

definition new_events :: "'p module_state \<Rightarrow> 'p module_state \<Rightarrow> 'p event list" where
  "new_events s s' = drop (length (trace s)) (trace s')"

text \<open>
  The candidates a scan evaluates, in order, each with the state before and the state
  after its evaluation; the scan stops at a candidate whose evaluation raises.
\<close>

fun evaluations ::
  "('c \<Rightarrow> ('p, unit) io) \<Rightarrow> 'c list \<Rightarrow> 'p module_state \<Rightarrow>
     ('c \<times> 'p module_state \<times> 'p module_state) list" where
  "evaluations body [] s = []"
| "evaluations body (comb # rest) s =
     (case body comb s of
        (Inl e, s') \<Rightarrow> [(comb, s, s')]
      | (Inr u, s') \<Rightarrow> (comb, s, s') # evaluations body rest s')"

text \<open>Names for parts of the scripts, and the samples of a script run from a state.\<close>

definition bypass_prefix :: "'p \<Rightarrow> 'p \<Rightarrow> ('p \<times> bool) list list" where
  "bypass_prefix m i =
     tms_script m ''111110'' @ tms_script m ''1100'' @
     tms_tdi_script m i (replicate 32 CHR ''0'') (replicate 32 CHR ''1'') @
     tms_script m ''110'' @ tms_script m ''100''"

definition idcode_shift :: "'p \<Rightarrow> 'p option \<Rightarrow> ('p \<times> bool) list list" where
  "idcode_shift m tdi =
     (case tdi of
        None \<Rightarrow> tms_script m (replicate 32 CHR ''0'')
      | Some i \<Rightarrow> tms_tdi_script m i (replicate 31 CHR ''0'' @ ''1'') (replicate 32 CHR ''0''))"

definition cycle_bits ::
  "'p adapter \<Rightarrow> 'p \<Rightarrow> 'p \<Rightarrow> ('p \<times> bool) list list \<Rightarrow> 'p module_state \<Rightarrow> bool list" where
  "cycle_bits env ck d script s = run_script env ck d (trace s) script"

text \<open>
  Two concrete adapters over pins numbered by naturals: a board that accepts every pin
  and holds every line low, and one whose pin 4 can be an input only.
\<close>

definition quiet_board :: "nat adapter" where
  "quiet_board = \<lparr>accepts = (\<lambda>p m. True), level = (\<lambda>tr p. False)\<rparr>"

definition reserved_pin_board :: "nat adapter" where
  "reserved_pin_board =
     \<lparr>accepts = (\<lambda>p m. \<not> (p = 4 \<and> m = OUT_PP)), level = (\<lambda>tr p. False)\<rparr>"

text \<open>The state once a candidate's lines are bound, before its test starts.\<close>

definition bypass_bound :: "'p \<Rightarrow> 'p \<Rightarrow> 'p \<Rightarrow> 'p \<Rightarrow> 'p module_state \<Rightarrow> 'p module_state" where
  "bypass_bound a b c d s =
     s\<lparr>TMS := Some a, TDI := Some b, TCK := Some c, TDO := Some d,
       trace := trace s @
         [Configure a OUT_PP, Configure b OUT_PP, Configure c OUT_PP, Configure d IN]\<rparr>"

definition idcode_bound :: "'p \<Rightarrow> 'p \<Rightarrow> 'p \<Rightarrow> 'p module_state \<Rightarrow> 'p module_state" where
  "idcode_bound a b c s =
     s\<lparr>TMS := Some a, TCK := Some b, TDO := Some c,
       trace := trace s @ [Configure a OUT_PP, Configure b OUT_PP, Configure c IN]\<rparr>"

text \<open>Events that only configure a pin: no line is driven and none is sampled.\<close>

fun is_configure :: "'p event \<Rightarrow> bool" where
  "is_configure (Configure p m) = True"
| "is_configure (SetLevel p v) = False"
| "is_configure (Delay ms) = False"
| "is_configure (ReadLevel p b) = False"

text \<open>A statement that leaves the variable \<open>TDI\<close> as it found it, whatever its outcome.\<close>

definition keeps_TDI :: "('p, 'a) io \<Rightarrow> bool" where
  "keeps_TDI m = (\<forall>s. TDI (snd (m s)) = TDI s)"

section \<open>Properties of the enumerator\<close>

lemma bind_err_Inr [simp]: "bind_err (Inr a) f = f a"
  by (simp add: bind_err_def)

lemma bind_err_Inl [simp]: "bind_err (Inl e) f = Inl e"
  by (simp add: bind_err_def)

lemma py_getitem_nat: "i < length xs \<Longrightarrow> py_getitem xs (int i) = Inr (xs ! i)"
  by (simp add: py_getitem_def py_index_def)

lemma py_setitem_nat: "i < length xs \<Longrightarrow> py_setitem xs (int i) x = Inr (xs[i := x])"
  by (simp add: py_setitem_def py_index_def)

lemma product_fill_nth:
  assumes "0 < length items" and "length v = repeat"
    and "\<forall>s\<in>set ss. 1 \<le> s \<and> s < repeat"
  shows "\<exists>v'. product_fill items repeat k ss v = Inr v' \<and> length v' = repeat \<and>
           (\<forall>p<repeat. v' ! p =
              (if repeat - 1 - p \<in> set ss
               then Some (items ! ((k div length items ^ (repeat - 1 - p)) mod length items))
               else v ! p))"
  using assms
proof (induction ss arbitrary: v)
  case Nil
  then show ?case by simp
next
  case (Cons s ss)
  let ?n = "length items"
  let ?i = "(k div ?n ^ s) mod ?n"
  let ?v1 = "v[repeat - s - 1 := Some (items ! ?i)]"
  from Cons.prems have s: "1 \<le> s" "s < repeat" by auto
  have idx: "int repeat - int s - 1 = int (repeat - s - 1)" using s by simp
  have lt: "repeat - s - 1 < length v" using s Cons.prems by simp
  have i: "?i < ?n" using Cons.prems by simp
  have step: "product_fill items repeat k (s # ss) v = product_fill items repeat k ss ?v1"
    using Cons.prems(1) i lt
    by (simp add: Let_def py_floordiv_def py_mod_def py_getitem_nat idx py_setitem_nat del: of_nat_diff)
  have "length ?v1 = repeat" using Cons.prems by simp
  moreover have "\<forall>s\<in>set ss. 1 \<le> s \<and> s < repeat" using Cons.prems by simp
  ultimately obtain v' where v': "product_fill items repeat k ss ?v1 = Inr v'"
    "length v' = repeat"
    "\<forall>p<repeat. v' ! p =
              (if repeat - 1 - p \<in> set ss
               then Some (items ! ((k div ?n ^ (repeat - 1 - p)) mod ?n))
               else ?v1 ! p)"
    using Cons.IH [OF Cons.prems(1)] by blast
  have "\<forall>p<repeat. v' ! p =
              (if repeat - 1 - p \<in> set (s # ss)
               then Some (items ! ((k div ?n ^ (repeat - 1 - p)) mod ?n))
               else v ! p)"
  proof (intro allI impI)
    fix p assume p: "p < repeat"
    show "v' ! p = (if repeat - 1 - p \<in> set (s # ss)
               then Some (items ! ((k div ?n ^ (repeat - 1 - p)) mod ?n))
               else v ! p)"
    proof (cases "repeat - 1 - p \<in> set ss")
      case True
      then show ?thesis using v'(3) p by simp
    next
      case False
      show ?thesis
      proof (cases "repeat - 1 - p = s")
        case True
        then have "p = repeat - s - 1" using p s by arith
        then show ?thesis using v'(3) p False True lt by simp
      next
        case ne: False
        then have "p \<noteq> repeat - s - 1" using p s by arith
        then show ?thesis using v'(3) p False ne by simp
      qed
    qed
  qed
  with v' step show ?case by simp
qed

lemma product_tuple_digits:
  assumes "0 < length items" and "1 \<le> repeat"
  shows "product_tuple items repeat k = Inr (digit_tuple items repeat k)"
proof -
  let ?n = "length items"
  let ?v = "(replicate repeat None)[repeat - 1 := Some (items ! (k mod ?n))]"
  have idx: "int repeat - 1 = int (repeat - 1)" using assms by simp
  have "length ?v = repeat" by simp
  moreover have "\<forall>s\<in>set [1..<repeat]. 1 \<le> s \<and> s < repeat" by simp
  ultimately obtain v' where v': "product_fill items repeat k [1..<repeat] ?v = Inr v'"
    "length v' = repeat"
    "\<forall>p<repeat. v' ! p =
              (if repeat - 1 - p \<in> set [1..<repeat]
               then Some (items ! ((k div ?n ^ (repeat - 1 - p)) mod ?n))
               else ?v ! p)"
    using product_fill_nth [OF assms(1)] by blast
  have nth: "\<forall>p<repeat. v' ! p = Some (items ! ((k div ?n ^ (repeat - 1 - p)) mod ?n))"
  proof (intro allI impI)
    fix p assume p: "p < repeat"
    show "v' ! p = Some (items ! ((k div ?n ^ (repeat - 1 - p)) mod ?n))"
    proof (cases "repeat - 1 - p = 0")
      case True
      then have "p = repeat - 1" using p by arith
      then show ?thesis using v'(3) p True by simp
    next
      case False
      then have "repeat - 1 - p \<in> set [1..<repeat]" using p by auto
      then show ?thesis using v'(3) p by simp
    qed
  qed
  have "map the v' = digit_tuple items repeat k"
    by (rule nth_equalityI) (simp_all add: digit_tuple_def v'(2) nth)
  moreover have "product_tuple items repeat k = Inr (map the v')"
    using assms v'(1)
    by (simp add: Let_def product_tuple_def py_mod_def py_getitem_nat idx py_setitem_nat del: of_nat_diff)
  ultimately show ?thesis by simp
qed

lemma collect_Inr:
  "\<forall>k\<in>set ks. f k = Inr (g k) \<Longrightarrow> collect f ks = Inr (map g ks)"
  by (induction ks) simp_all

lemma map_upt_mult:
  "map f [0..<a * b] = concat (map (\<lambda>q. map (\<lambda>r. f (q * b + r)) [0..<b]) [0..<a])"
proof (induction a)
  case 0
  then show ?case by simp
next
  case (Suc a)
  have "[0..<a * b + b] = [0..<a * b] @ [a * b..<a * b + b]"
    by (rule upt_add_eq_append) simp
  moreover have "[a * b..<a * b + b] = map (\<lambda>r. a * b + r) [0..<b]"
    by (simp add: map_add_upt add.commute)
  ultimately have "[0..<Suc a * b] = [0..<a * b] @ map (\<lambda>r. a * b + r) [0..<b]"
    by (simp add: add.commute)
  then show ?case using Suc by (simp add: comp_def)
qed

lemma digit_shift:
  assumes "0 < (n::nat)" and "e < k"
  shows "((q * n ^ k + r) div n ^ e) mod n = (r div n ^ e) mod n"
proof -
  obtain d where k: "k = Suc d + e" using assms(2) less_iff_Suc_add
    by (metis add.commute add_Suc_right)
  have "n ^ k = n ^ e * (n ^ d * n)"
    by (simp add: k power_add)
  then have "q * n ^ k + r = r + (q * n ^ d * n) * n ^ e"
    by (simp add: algebra_simps)
  moreover have "(r + (q * n ^ d * n) * n ^ e) div n ^ e = q * n ^ d * n + r div n ^ e"
    using assms(1) by (intro div_mult_self1) simp
  ultimately have "(q * n ^ k + r) div n ^ e = q * n ^ d * n + r div n ^ e"
    by (simp only:)
  then show ?thesis by simp
qed

lemma digit_tuple_Suc:
  assumes "r < length items ^ k" and "q < length items"
  shows "digit_tuple items (Suc k) (q * length items ^ k + r) = items ! q # digit_tuple items k r"
proof -
  let ?n = "length items"
  have n: "0 < ?n" using assms by auto
  have hd: "((q * ?n ^ k + r) div ?n ^ k) mod ?n = q"
    using assms n by simp
  have "[0..<Suc k] = 0 # map Suc [0..<k]"
    by (simp add: upt_conv_Cons map_Suc_upt del: upt_Suc)
  then have "digit_tuple items (Suc k) (q * ?n ^ k + r) =
      items ! (((q * ?n ^ k + r) div ?n ^ k) mod ?n) #
      map (\<lambda>p. items ! (((q * ?n ^ k + r) div ?n ^ (k - 1 - p)) mod ?n)) [0..<k]"
    by (simp add: digit_tuple_def comp_def del: upt_Suc)
  also have "map (\<lambda>p. items ! (((q * ?n ^ k + r) div ?n ^ (k - 1 - p)) mod ?n)) [0..<k] =
      digit_tuple items k r"
    unfolding digit_tuple_def
    by (rule map_cong [OF refl]) (simp add: digit_shift [OF n])
  finally show ?thesis using hd by simp
qed

lemma digit_tuples_cartesian:
  "map (digit_tuple items k) [0..<length items ^ k] = cartesian_power k items"
proof (induction k)
  case 0
  then show ?case by (simp add: digit_tuple_def)
next
  case (Suc k)
  let ?n = "length items"
  have "map (digit_tuple items (Suc k)) [0..<?n * ?n ^ k] =
      concat (map (\<lambda>q. map (\<lambda>r. digit_tuple items (Suc k) (q * ?n ^ k + r)) [0..<?n ^ k]) [0..<?n])"
    by (rule map_upt_mult)
  also have "\<dots> = concat (map (\<lambda>q. map (\<lambda>r. items ! q # digit_tuple items k r) [0..<?n ^ k]) [0..<?n])"
    by (intro arg_cong [where f = concat] map_cong refl) (simp add: digit_tuple_Suc)
  also have "\<dots> = concat (map (\<lambda>q. map (\<lambda>t. items ! q # t) (cartesian_power k items)) [0..<?n])"
    by (simp add: Suc [symmetric] comp_def)
  also have "\<dots> = concat (map (\<lambda>x. map (\<lambda>t. x # t) (cartesian_power k items)) (map (\<lambda>q. items ! q) [0..<?n]))"
    by (simp add: comp_def)
  also have "map (\<lambda>q. items ! q) [0..<?n] = items"
    by (rule map_nth)
  finally show ?case by simp
qed

lemma product_gen_cartesian:
  assumes "1 \<le> repeat"
  shows "product_gen items repeat = Inr (cartesian_power repeat items)"
proof (cases "items = []")
  case True
  obtain j where "repeat = Suc j" using assms by (cases repeat) auto
  then show ?thesis using True by (simp add: product_gen_def)
next
  case False
  then have n: "0 < length items" by simp
  have "collect (product_tuple items repeat) [0..<length items ^ repeat] =
      Inr (map (digit_tuple items repeat) [0..<length items ^ repeat])"
    by (rule collect_Inr) (simp add: product_tuple_digits [OF n assms])
  then show ?thesis by (simp add: product_gen_def digit_tuples_cartesian)
qed


lemma set_cartesian_power:
  "set (cartesian_power k pool) = {t. length t = k \<and> set t \<subseteq> set pool}"
proof (induction k)
  case 0
  then show ?case by auto
next
  case (Suc k)
  show ?case
  proof (intro set_eqI iffI)
    fix t assume "t \<in> set (cartesian_power (Suc k) pool)"
    then show "t \<in> {t. length t = Suc k \<and> set t \<subseteq> set pool}"
      using Suc by auto
  next
    fix t assume "t \<in> {t. length t = Suc k \<and> set t \<subseteq> set pool}"
    then obtain x u where "t = x # u" "length u = k" "x \<in> set pool" "set u \<subseteq> set pool"
      by (cases t) auto
    then show "t \<in> set (cartesian_power (Suc k) pool)"
      using Suc by auto
  qed
qed

lemma distinct_cartesian_power:
  "distinct pool \<Longrightarrow> distinct (cartesian_power k pool)"
proof (induction k)
  case 0
  then show ?case by simp
next
  case (Suc k)
  have "distinct (concat (map (\<lambda>x. map (\<lambda>t. x # t) (cartesian_power k pool)) pool))"
  proof (rule distinct_concat)
    show "distinct (map (\<lambda>x. map (\<lambda>t. x # t) (cartesian_power k pool)) pool)"
    proof (cases "cartesian_power k pool")
      case Nil
      have "pool = []"
      proof (rule ccontr)
        assume "pool \<noteq> []"
        then have "replicate k (hd pool) \<in> set (cartesian_power k pool)"
          unfolding set_cartesian_power by (auto split: if_splits)
        then show False using Nil by simp
      qed
      then show ?thesis by simp
    next
      case (Cons t ts)
      have "inj_on (\<lambda>x. map (\<lambda>t. x # t) (cartesian_power k pool)) (set pool)"
        by (rule inj_onI) (simp add: Cons)
      then show ?thesis using Suc.prems by (simp add: distinct_map)
    qed
  next
    fix ys assume "ys \<in> set (map (\<lambda>x. map (\<lambda>t. x # t) (cartesian_power k pool)) pool)"
    then show "distinct ys" using Suc by (auto simp: distinct_map inj_on_def)
  next
    fix ys zs
    assume "ys \<in> set (map (\<lambda>x. map (\<lambda>t. x # t) (cartesian_power k pool)) pool)"
      "zs \<in> set (map (\<lambda>x. map (\<lambda>t. x # t) (cartesian_power k pool)) pool)" "ys \<noteq> zs"
    then show "set ys \<inter> set zs = {}" by auto
  qed
  then show ?case by simp
qed

lemma card_set_eq_length: "length t = k \<Longrightarrow> (card (set t) = k) = distinct t"
  using card_distinct distinct_card by metis

lemma filter_cartesian_set:
  "set (filter (\<lambda>item. card (set item) = k) (cartesian_power k pool)) =
     {t. length t = k \<and> distinct t \<and> set t \<subseteq> set pool}"
  by (auto simp: set_cartesian_power card_set_eq_length)

lemma length_filter_cartesian:
  assumes "distinct pool" and "k \<le> length pool"
  shows "length (filter (\<lambda>item. card (set item) = k) (cartesian_power k pool)) =
     fact (length pool) div fact (length pool - k)"
proof -
  let ?f = "filter (\<lambda>item. card (set item) = k) (cartesian_power k pool)"
  have "distinct ?f" using assms(1) by (simp add: distinct_cartesian_power)
  then have "length ?f = card (set ?f)" by (rule distinct_card [symmetric])
  also have "\<dots> = card {t. length t = k \<and> distinct t \<and> set t \<subseteq> set pool}"
    by (simp only: filter_cartesian_set)
  also have "\<dots> = \<Prod>{card (set pool) - k + 1 .. card (set pool)}"
    using assms by (intro card_lists_distinct_length_eq) (simp_all add: distinct_card)
  also have "\<dots> = \<Prod>{length pool - k + 1 .. length pool}"
    using assms(1) by (simp add: distinct_card)
  also have "\<dots> = fact (length pool) div fact (length pool - k)"
    using fact_div_fact [of "length pool - k" "length pool"] by simp
  finally show ?thesis .
qed

lemma candidates_cartesian:
  "1 \<le> k \<Longrightarrow>
     candidates pool k = Inr (filter (\<lambda>item. card (set item) = k) (cartesian_power k pool))"
  by (simp add: candidates_def product_gen_cartesian)

lemma candidates_set:
  assumes "1 \<le> k" and "candidates pool k = Inr cs"
  shows "set cs = {t. length t = k \<and> distinct t \<and> set t \<subseteq> set pool}"
  using assms filter_cartesian_set [of k pool] by (simp add: candidates_cartesian)

lemma product_gen_arity_0:
  "product_gen items 0 = Inl (if items = [] then ZeroDivisionError else IndexError)"
proof (cases items)
  case Nil
  then show ?thesis
    by (simp add: product_gen_def product_tuple_def py_mod_def)
next
  case (Cons x xs)
  then show ?thesis
    by (simp add: product_gen_def product_tuple_def py_mod_def py_getitem_def py_setitem_def
        py_index_def)
qed

section \<open>Properties of the bit clocker and the tests\<close>

lemma bind_io_Inr: "m s = (Inr a, s') \<Longrightarrow> bind_io m f s = f a s'"
  by (simp add: bind_io_def)

lemma bind_io_Inl: "m s = (Inl e, s') \<Longrightarrow> bind_io m f s = (Inl e, s')"
  by (simp add: bind_io_def)

lemma bind_io_return [simp]: "bind_io (return_io a) f s = f a s"
  by (simp add: bind_io_def return_io_def)

lemma bind_io_lift_Inr [simp]: "bind_io (lift_io (Inr a)) f s = f a s"
  by (simp add: bind_io_def lift_io_def)

lemma bind_io_lift_Inl [simp]: "bind_io (lift_io (Inl e)) f s = (Inl e, s)"
  by (simp add: bind_io_def lift_io_def)

lemma bind_io_emit [simp]: "bind_io (emit ev) f s = f () (s\<lparr>trace := trace s @ [ev]\<rparr>)"
  by (simp add: bind_io_def emit_def)

lemma bind_io_delay [simp]: "bind_io (delay ms) f s = f () (s\<lparr>trace := trace s @ [Delay ms]\<rparr>)"
  by (simp add: delay_def)

lemma bind_io_attr_Some [simp]: "bind_io (pin_value_attr (Some p)) f s = f p s"
  by (simp add: pin_value_attr_def)

lemma bind_io_attr_None [simp]: "bind_io (pin_value_attr None) f s = (Inl AttributeError, s)"
  by (simp add: pin_value_attr_def bind_io_def raise_io_def)

lemma set_lines_run:
  assumes "length states = length lines" and "\<forall>k\<in>set ks. k < length lines"
  shows "set_lines (map Some lines) states ks s =
     (Inr (), s\<lparr>trace := trace s @ map (\<lambda>k. SetLevel (lines ! k) (states ! k \<noteq> 0)) ks\<rparr>)"
  using assms
proof (induction ks arbitrary: s)
  case Nil
  then show ?case by (simp add: return_io_def)
next
  case (Cons k ks)
  then have k: "k < length lines" "k < length states" by simp_all
  have "set_lines (map Some lines) states (k # ks) s =
      set_lines (map Some lines) states ks (s\<lparr>trace := trace s @ [SetLevel (lines ! k) (states ! k \<noteq> 0)]\<rparr>)"
    using k py_getitem_nat [of k "map Some lines"] py_getitem_nat [of k states] by simp
  then show ?case using Cons by simp
qed

lemma map_upt_zip:
  "length ys = length xs \<Longrightarrow> map (\<lambda>k. f (xs ! k) (ys ! k)) [0..<length xs] = map (\<lambda>(x, y). f x y) (zip xs ys)"
  by (rule nth_equalityI) simp_all

lemma io_values_run:
  assumes "TCK s = Some ck" and "TDO s = Some d" and "length states = length lines"
  shows "io_values env (map Some lines) states s =
     (let outs = zip lines (map (\<lambda>v. v \<noteq> 0) states); b = level env (trace s @ pulse ck outs) d
      in (Inr b, s\<lparr>trace := trace s @ clock_cycle ck d outs b\<rparr>))"
proof -
  have m: "map (\<lambda>k. SetLevel (lines ! k) (states ! k \<noteq> 0)) [0..<length lines] =
      map (\<lambda>(p, v). SetLevel p v) (zip lines (map (\<lambda>v. v \<noteq> 0) states))"
    using assms(3) by (intro nth_equalityI) simp_all
  have sl: "set_lines (map Some lines) states [0..<length lines] s' =
     (Inr (), s'\<lparr>trace := trace s' @ map (\<lambda>(p, v). SetLevel p v) (zip lines (map (\<lambda>v. v \<noteq> 0) states))\<rparr>)" for s'
    using set_lines_run [OF assms(3), of "[0..<length lines]" s'] by (simp add: m)
  show ?thesis
    using assms(1,2)
    by (simp add: io_values_def Let_def bind_io_def sl pin_value_attr_def return_io_def emit_def
        delay_def pin_read_def clock_cycle_def pulse_def)
qed


lemma py_int_bit: "is_bit c \<Longrightarrow> py_int c = Inr (if c = CHR ''1'' then 1 else 0)"
  by (auto simp: is_bit_def py_int_def)

lemma run_cycles_Nil [simp]: "run_cycles env ck d [] s = s"
  by (simp add: run_cycles_def script_trace_def)

lemma run_cycles_Cons:
  "run_cycles env ck d (outs # rest) s =
     run_cycles env ck d rest
       (s\<lparr>trace := trace s @ clock_cycle ck d outs (level env (trace s @ pulse ck outs) d)\<rparr>)"
  by (simp add: run_cycles_def script_trace_def Let_def)

lemma run_cycles_globals [simp]:
  "TMS (run_cycles env ck d script s) = TMS s"
  "TDI (run_cycles env ck d script s) = TDI s"
  "TCK (run_cycles env ck d script s) = TCK s"
  "TDO (run_cycles env ck d script s) = TDO s"
  "log (run_cycles env ck d script s) = log s"
  by (simp_all add: run_cycles_def)

lemma io_tms_loop_run:
  assumes "TMS s = Some m" and "TCK s = Some ck" and "TDO s = Some d"
    and "\<forall>c\<in>set vs. is_bit c"
  shows "io_tms_loop env vs s =
     (Inr (run_script env ck d (trace s) (tms_script m vs)),
      run_cycles env ck d (tms_script m vs) s)"
  using assms
proof (induction vs arbitrary: s)
  case Nil
  then show ?case by (simp add: tms_script_def return_io_def)
next
  case (Cons c vs)
  let ?outs = "[(m, c = CHR ''1'')]"
  let ?b = "level env (trace s @ pulse ck ?outs) d"
  let ?s1 = "s\<lparr>trace := trace s @ clock_cycle ck d ?outs ?b\<rparr>"
  have c: "is_bit c" using Cons.prems by simp
  have io: "io_values env [Some m] [if c = CHR ''1'' then 1 else 0] s = (Inr ?b, ?s1)"
    using io_values_run [OF Cons.prems(2,3), of "[if c = CHR ''1'' then 1 else 0]" "[m]" env]
    by (simp add: Let_def)
  have ih: "io_tms_loop env vs ?s1 =
     (Inr (run_script env ck d (trace ?s1) (tms_script m vs)),
      run_cycles env ck d (tms_script m vs) ?s1)"
    using Cons.prems by (intro Cons.IH) simp_all
  show ?case
    using Cons.prems(1)
    by (simp add: py_int_bit [OF c] bind_io_def lift_io_def io ih return_io_def
        tms_script_def run_cycles_Cons Let_def)
qed

lemma io_tms_tdi_loop_run:
  assumes "TMS s = Some m" and "TDI s = Some i" and "TCK s = Some ck" and "TDO s = Some d"
    and "\<forall>c\<in>set tms_values. is_bit c" and "\<forall>c\<in>set tdi_values. is_bit c"
    and "length tms_values = length tdi_values"
  shows "io_tms_tdi_loop env (zip tms_values tdi_values) s =
     (Inr (run_script env ck d (trace s) (tms_tdi_script m i tms_values tdi_values)),
      run_cycles env ck d (tms_tdi_script m i tms_values tdi_values) s)"
  using assms(7,1-6)
proof (induction tms_values tdi_values arbitrary: s rule: list_induct2)
  case Nil
  then show ?case by (simp add: tms_tdi_script_def return_io_def)
next
  case (Cons a as b bs)
  let ?outs = "[(m, a = CHR ''1''), (i, b = CHR ''1'')]"
  let ?b = "level env (trace s @ pulse ck ?outs) d"
  let ?s1 = "s\<lparr>trace := trace s @ clock_cycle ck d ?outs ?b\<rparr>"
  have a: "is_bit a" and b: "is_bit b" using Cons.prems by simp_all
  have io: "io_values env [Some m, Some i]
      [if a = CHR ''1'' then 1 else 0, if b = CHR ''1'' then 1 else 0] s = (Inr ?b, ?s1)"
    using io_values_run [OF Cons.prems(3,4),
        of "[if a = CHR ''1'' then 1 else 0, if b = CHR ''1'' then 1 else 0]" "[m, i]" env]
    by (simp add: Let_def)
  have ih: "io_tms_tdi_loop env (zip as bs) ?s1 =
     (Inr (run_script env ck d (trace ?s1) (tms_tdi_script m i as bs)),
      run_cycles env ck d (tms_tdi_script m i as bs) ?s1)"
    using Cons.prems by (intro Cons.IH) simp_all
  show ?case
    using Cons.prems(1,2)
    by (simp add: py_int_bit [OF a] py_int_bit [OF b] bind_io_def lift_io_def io ih
        return_io_def tms_tdi_script_def run_cycles_Cons Let_def del: bind_io_return bind_io_lift_Inr bind_io_lift_Inl)
qed

lemma io_tms_run:
  assumes "TMS s = Some m" and "TCK s = Some ck" and "TDO s = Some d"
    and "\<forall>c\<in>set vs. is_bit c"
  shows "io_tms env vs s =
     (Inr (map bit_char (cycle_bits env ck d (tms_script m vs) s)),
      run_cycles env ck d (tms_script m vs) s)"
  by (simp add: io_tms_def cycle_bits_def bind_io_def io_tms_loop_run [OF assms] return_io_def)

lemma io_tms_tdi_run:
  assumes "TMS s = Some m" and "TDI s = Some i" and "TCK s = Some ck" and "TDO s = Some d"
    and "\<forall>c\<in>set tms_values. is_bit c" and "\<forall>c\<in>set tdi_values. is_bit c"
    and "length tms_values = length tdi_values"
  shows "io_tms_tdi env tms_values tdi_values s =
     (Inr (map bit_char (cycle_bits env ck d (tms_tdi_script m i tms_values tdi_values) s)),
      run_cycles env ck d (tms_tdi_script m i tms_values tdi_values) s)"
  by (simp add: io_tms_tdi_def cycle_bits_def bind_io_def io_tms_tdi_loop_run [OF assms]
      return_io_def)

lemma length_run_script [simp]: "length (run_script env ck d tr script) = length script"
  by (induction script arbitrary: tr) (simp_all add: Let_def)

lemma length_cycle_bits [simp]: "length (cycle_bits env ck d script s) = length script"
  by (simp add: cycle_bits_def)

lemma run_cycles_append:
  "run_cycles env ck d (xs @ ys) s = run_cycles env ck d ys (run_cycles env ck d xs s)"
proof (induction xs arbitrary: s)
  case Nil
  then show ?case by simp
next
  case (Cons x xs)
  then show ?case by (simp add: run_cycles_Cons)
qed

lemma cycle_bits_append:
  "cycle_bits env ck d (xs @ ys) s =
     cycle_bits env ck d xs s @ cycle_bits env ck d ys (run_cycles env ck d xs s)"
proof (induction xs arbitrary: s)
  case Nil
  then show ?case by (simp add: cycle_bits_def)
next
  case (Cons x xs)
  have "cycle_bits env ck d ((x # xs) @ ys) s =
      level env (trace s @ pulse ck x) d #
      cycle_bits env ck d (xs @ ys)
        (s\<lparr>trace := trace s @ clock_cycle ck d x (level env (trace s @ pulse ck x) d)\<rparr>)"
    by (simp add: cycle_bits_def Let_def)
  then show ?case
    by (simp add: Cons run_cycles_Cons) (simp add: cycle_bits_def Let_def)
qed


lemma length_tms_script [simp]: "length (tms_script m vs) = length vs"
  by (simp add: tms_script_def)

lemma length_tms_tdi_script [simp]:
  "length (tms_tdi_script m i as bs) = min (length as) (length bs)"
  by (simp add: tms_tdi_script_def)

lemma is_bit_simps [simp]: "is_bit CHR ''0''" "is_bit CHR ''1''"
  by (simp_all add: is_bit_def)

lemma bypass_test_run:
  assumes "TMS s = Some m" and "TDI s = Some i" and "TCK s = Some ck" and "TDO s = Some d"
    and "\<forall>c\<in>set pattern. is_bit c" and "pattern \<noteq> []"
  shows "bypass_test env pattern s =
     (Inr (map bit_char (take (length pattern) (drop 48
        (cycle_bits env ck d (bypass_script m i pattern) s)))),
      run_cycles env ck d (bypass_script m i pattern) s)"
proof -
  note tms = io_tms_run [where m = m and ck = ck and d = d and env = env]
  note tdi = io_tms_tdi_run [where m = m and i = i and ck = ck and d = d and env = env]
  let ?s1 = "run_cycles env ck d (tms_script m ''111110'') s"
  let ?s2 = "run_cycles env ck d (tms_script m ''1100'') ?s1"
  let ?s3 = "run_cycles env ck d
     (tms_tdi_script m i (replicate 32 CHR ''0'') (replicate 32 CHR ''1'')) ?s2"
  let ?s4 = "run_cycles env ck d (tms_script m ''110'') ?s3"
  let ?s5 = "run_cycles env ck d (tms_script m ''100'') ?s4"
  define dr where "dr = tms_tdi_script m i (replicate (length pattern - 1) CHR ''0'' @ ''1'') pattern"
  let ?s6 = "run_cycles env ck d dr ?s5"
  let ?s7 = "run_cycles env ck d (tms_script m ''10'') ?s6"
  have 1: "restore_idle env s = (Inr (), ?s1)"
    using assms by (simp add: restore_idle_def bind_io_def tms return_io_def)
  have 2: "enter_shift_ir env ?s1 = (Inr (), ?s2)"
    using assms by (simp add: enter_shift_ir_def bind_io_def tms return_io_def)
  have 3: "io_tms_tdi env (replicate MAX_IR_LEN CHR ''0'') (replicate MAX_IR_LEN CHR ''1'') ?s2 =
      (Inr (map bit_char (cycle_bits env ck d
         (tms_tdi_script m i (replicate 32 CHR ''0'') (replicate 32 CHR ''1'')) ?s2)), ?s3)"
    using assms by (simp add: MAX_IR_LEN_def tdi)
  have 4: "io_tms env ''110'' ?s3 =
      (Inr (map bit_char (cycle_bits env ck d (tms_script m ''110'') ?s3)), ?s4)"
    using assms by (simp add: tms)
  have 5: "enter_shift_dr env ?s4 = (Inr (), ?s5)"
    using assms by (simp add: enter_shift_dr_def bind_io_def tms return_io_def)
  have len: "length (replicate (length pattern - 1) CHR ''0'' @ ''1'') = length pattern"
    using assms(6) by (cases pattern) simp_all
  have 6: "shift_array env pattern ?s5 = (Inr (map bit_char (cycle_bits env ck d dr ?s5)), ?s6)"
    using assms len unfolding dr_def by (simp add: shift_array_def Let_def tdi)
  have 7: "io_tms env ''10'' ?s6 =
      (Inr (map bit_char (cycle_bits env ck d (tms_script m ''10'') ?s6)), ?s7)"
    using assms by (simp add: tms)
  have run: "bypass_test env pattern s = (Inr (map bit_char (cycle_bits env ck d dr ?s5)), ?s7)"
    by (simp add: bypass_test_def send_data_def bind_io_def 1 2 3 4 5 6 7 return_io_def)
  have script: "bypass_script m i pattern = bypass_prefix m i @ dr @ tms_script m ''10''"
    by (simp add: bypass_script_def bypass_prefix_def dr_def)
  have s5: "run_cycles env ck d (bypass_prefix m i) s = ?s5"
    by (simp add: bypass_prefix_def run_cycles_append)
  have lp: "length (bypass_prefix m i) = 48"
    by (simp add: bypass_prefix_def)
  have ldr: "length dr = length pattern"
    using len by (simp add: dr_def)
  have bits: "take (length pattern) (drop 48 (cycle_bits env ck d (bypass_script m i pattern) s)) =
      cycle_bits env ck d dr ?s5"
    by (simp add: script cycle_bits_append lp ldr s5)
  have st: "run_cycles env ck d (bypass_script m i pattern) s = ?s7"
    by (simp add: script run_cycles_append s5)
  show ?thesis by (simp only: run bits st)
qed

lemma idcode_test_run:
  assumes "TMS s = Some m" and "TCK s = Some ck" and "TDO s = Some d"
  shows "idcode_test env s =
     (Inr (rev (map bit_char (take 32 (drop 9
        (cycle_bits env ck d (idcode_script m (TDI s)) s))))),
      run_cycles env ck d (idcode_script m (TDI s)) s)"
proof -
  note tms = io_tms_run [where m = m and ck = ck and d = d and env = env]
  let ?s1 = "run_cycles env ck d (tms_script m ''111110'') s"
  let ?s2 = "run_cycles env ck d (tms_script m ''100'') ?s1"
  let ?sh = "idcode_shift m (TDI s)"
  let ?s3 = "run_cycles env ck d ?sh ?s2"
  let ?s4 = "run_cycles env ck d (tms_script m ''010'') ?s3"
  have 1: "restore_idle env s = (Inr (), ?s1)"
    using assms by (simp add: restore_idle_def bind_io_def tms return_io_def)
  have 2: "enter_shift_dr env ?s1 = (Inr (), ?s2)"
    using assms by (simp add: enter_shift_dr_def bind_io_def tms return_io_def)
  have 3: "shift_array env (replicate 32 CHR ''0'') ?s2 =
      (Inr (map bit_char (cycle_bits env ck d ?sh ?s2)), ?s3)"
  proof (cases "TDI s")
    case None
    then show ?thesis using assms by (simp add: shift_array_def Let_def tms idcode_shift_def)
  next
    case (Some i)
    note tdi = io_tms_tdi_run [where m = m and i = i and ck = ck and d = d and env = env]
    show ?thesis using assms Some by (simp add: shift_array_def Let_def tdi idcode_shift_def)
  qed
  have 4: "io_tms env ''010'' ?s3 =
      (Inr (map bit_char (cycle_bits env ck d (tms_script m ''010'') ?s3)), ?s4)"
    using assms by (simp add: tms)
  have run: "idcode_test env s = (Inr (rev (map bit_char (cycle_bits env ck d ?sh ?s2))), ?s4)"
    by (simp add: idcode_test_def bind_io_def 1 2 3 4 return_io_def)
  have script: "idcode_script m (TDI s) =
      (tms_script m ''111110'' @ tms_script m ''100'') @ ?sh @ tms_script m ''010''"
    by (simp add: idcode_script_def idcode_shift_def)
  have lsh: "length ?sh = 32"
    by (simp add: idcode_shift_def split: option.splits)
  have bits: "take 32 (drop 9 (cycle_bits env ck d (idcode_script m (TDI s)) s)) =
      cycle_bits env ck d ?sh ?s2"
    by (simp add: script cycle_bits_append lsh run_cycles_append)
  have st: "run_cycles env ck d (idcode_script m (TDI s)) s = ?s4"
    by (simp add: script run_cycles_append)
  show ?thesis by (simp only: run bits st)
qed

lemma new_events_append [simp]: "new_events s (s\<lparr>trace := trace s @ evs\<rparr>) = evs"
  by (simp add: new_events_def)

lemma line_events_append [simp]: "line_events (xs @ ys) = line_events xs @ line_events ys"
  by (simp add: line_events_def)

lemma line_events_Cons [simp]:
  "line_events (e # xs) = (if is_delay e then line_events xs else e # line_events xs)"
  by (simp add: line_events_def)

lemma line_events_Nil [simp]: "line_events [] = []"
  by (simp add: line_events_def)

lemma line_events_set_levels [simp]:
  "line_events (map (\<lambda>(p, v). SetLevel p v) outs) = map (\<lambda>(p, v). SetLevel p v) outs"
  by (induction outs) auto

lemma driven_append [simp]: "driven q (xs @ ys) = driven q xs @ driven q ys"
  by (simp add: driven_def)

lemma driven_Cons [simp]: "driven q (e # xs) = driven_of q e @ driven q xs"
  by (simp add: driven_def)

lemma driven_Nil [simp]: "driven q [] = []"
  by (simp add: driven_def)

lemma driven_other_lines:
  "q \<notin> fst ` set outs \<Longrightarrow> driven q (map (\<lambda>(p, v). SetLevel p v) outs) = []"
  by (induction outs) auto

section \<open>Properties of the scan engine\<close>

lemma samples_append [simp]: "samples (xs @ ys) = samples xs @ samples ys"
  by (simp add: samples_def)

lemma samples_Cons [simp]: "samples (e # xs) = sample_of e @ samples xs"
  by (simp add: samples_def)

lemma samples_Nil [simp]: "samples [] = []"
  by (simp add: samples_def)

lemma samples_set_levels [simp]: "samples (map (\<lambda>(p, v). SetLevel p v) outs) = []"
  by (induction outs) auto

lemma samples_clock_cycle [simp]: "samples (clock_cycle ck d outs b) = [b]"
  by (simp add: clock_cycle_def pulse_def)

lemma samples_script_trace:
  "length bits = length script \<Longrightarrow> samples (script_trace ck d script bits) = bits"
proof (induction bits script rule: list_induct2)
  case Nil
  then show ?case by (simp add: script_trace_def)
next
  case (Cons b bits outs script)
  then show ?case by (simp add: script_trace_def)
qed

lemma trace_run_cycles:
  "trace (run_cycles env ck d script s) =
     trace s @ script_trace ck d script (cycle_bits env ck d script s)"
  by (simp add: run_cycles_def cycle_bits_def)

lemma pattern_bits: "\<forall>c\<in>set JTAG_BYPASS_PATTERN. is_bit c"
  by (simp add: JTAG_BYPASS_PATTERN_def)

lemma pattern_length: "length JTAG_BYPASS_PATTERN = 44"
  by (simp add: JTAG_BYPASS_PATTERN_def)

lemma py_getitem_literal:
  "py_getitem (x0 # xs) 0 = Inr x0"
  "py_getitem (x0 # x1 # xs) 1 = Inr x1"
  "py_getitem (x0 # x1 # x2 # xs) 2 = Inr x2"
  "py_getitem (x0 # x1 # x2 # x3 # xs) 3 = Inr x3"
  by (simp_all add: py_getitem_def py_index_def)

lemma log_update_same: "log x = l \<Longrightarrow> x\<lparr>log := l\<rparr> = x"
  by (cases x) simp

lemma bound_fields [simp]:
  "log (bypass_bound a b c d s) = log s"
  "log (idcode_bound a b c s) = log s"
  "TDI (bypass_bound a b c d s) = Some b"
  "TDI (idcode_bound a b c s) = TDI s"
  "trace (bypass_bound a b c d s) =
     trace s @ [Configure a OUT_PP, Configure b OUT_PP, Configure c OUT_PP, Configure d IN]"
  "trace (idcode_bound a b c s) =
     trace s @ [Configure a OUT_PP, Configure b OUT_PP, Configure c IN]"
  by (simp_all add: bypass_bound_def idcode_bound_def)

lemma bypass_candidate_run:
  assumes "accepts env a OUT_PP" and "accepts env b OUT_PP" and "accepts env c OUT_PP"
    and "accepts env d IN"
  shows "bypass_candidate env [a, b, c, d] s =
     (Inr (),
      (run_cycles env c d (bypass_script a b JTAG_BYPASS_PATTERN) (bypass_bound a b c d s))
        \<lparr>log := log s @
           (if map bit_char (take 44 (drop 48
                 (cycle_bits env c d (bypass_script a b JTAG_BYPASS_PATTERN)
                    (bypass_bound a b c d s)))) = JTAG_BYPASS_PATTERN
            then [BypassInfo a b c d] else [])\<rparr>)"
proof -
  let ?s0 = "bypass_bound a b c d s"
  have ne: "JTAG_BYPASS_PATTERN \<noteq> []"
    by (simp add: JTAG_BYPASS_PATTERN_def)
  have bt: "bypass_test env JTAG_BYPASS_PATTERN ?s0 =
     (Inr (map bit_char (take 44 (drop 48
        (cycle_bits env c d (bypass_script a b JTAG_BYPASS_PATTERN) ?s0)))),
      run_cycles env c d (bypass_script a b JTAG_BYPASS_PATTERN) ?s0)"
    using bypass_test_run [of ?s0 a b c d JTAG_BYPASS_PATTERN env, OF _ _ _ _ pattern_bits ne]
    by (simp add: bypass_bound_def pattern_length)
  have pre: "bypass_candidate env [a, b, c, d] s =
     bind_io (bypass_test env JTAG_BYPASS_PATTERN) (\<lambda>response.
       if response = JTAG_BYPASS_PATTERN then log_info (BypassInfo a b c d) else return_io ())
       ?s0"
    using assms
    by (cases s)
      (simp add: bypass_candidate_def bind_io_def lift_io_def py_getitem_literal pyb_Pin_def
        bypass_bound_def)
  show ?thesis
    unfolding pre by (simp add: bind_io_def bt log_info_def return_io_def log_update_same)
qed

lemma idcode_candidate_run:
  assumes "accepts env a OUT_PP" and "accepts env b OUT_PP" and "accepts env c IN"
  shows "idcode_candidate env [a, b, c] s =
     (let s0 = idcode_bound a b c s;
          response = rev (map bit_char (take 32 (drop 9
                 (cycle_bits env b c (idcode_script a (TDI s)) s0))))
      in (Inr (),
          (run_cycles env b c (idcode_script a (TDI s)) s0)
            \<lparr>log := log s @
               (if response \<noteq> replicate 32 CHR ''1'' \<and> response \<noteq> replicate 32 CHR ''0''
                then [IdcodeInfo a b c response] else [])\<rparr>))"
proof -
  let ?s0 = "idcode_bound a b c s"
  have tdi: "TDI ?s0 = TDI s"
    by (simp add: idcode_bound_def)
  have it: "idcode_test env ?s0 =
     (Inr (rev (map bit_char (take 32 (drop 9
        (cycle_bits env b c (idcode_script a (TDI s)) ?s0))))),
      run_cycles env b c (idcode_script a (TDI s)) ?s0)"
    using idcode_test_run [of ?s0 a b c env]
    by (simp add: idcode_bound_def)
  have ones: "''11111111111111111111111111111111'' = replicate 32 CHR ''1''"
    and zeros: "''00000000000000000000000000000000'' = replicate 32 CHR ''0''"
    by (simp_all add: eval_nat_numeral)
  have pre: "idcode_candidate env [a, b, c] s =
     bind_io (idcode_test env) (\<lambda>response.
       if response \<noteq> ''11111111111111111111111111111111''
          \<and> response \<noteq> ''00000000000000000000000000000000''
       then log_info (IdcodeInfo a b c response) else return_io ()) ?s0"
    using assms
    by (cases s)
      (simp add: idcode_candidate_def bind_io_def lift_io_def py_getitem_literal pyb_Pin_def
        idcode_bound_def)
  show ?thesis
    unfolding pre ones zeros
    by (simp add: bind_io_def it log_info_def return_io_def Let_def log_update_same)
qed

lemma evaluations_member:
  "(c, s0, s1) \<in> set (evaluations body cs s) \<Longrightarrow> c \<in> set cs \<and> s1 = snd (body c s0)"
proof (induction cs arbitrary: s)
  case Nil
  then show ?case by simp
next
  case (Cons x cs)
  obtain r s' where b: "body x s = (r, s')"
    by (cases "body x s")
  show ?case
  proof (cases r)
    case (Inl e)
    then show ?thesis using Cons.prems b by auto
  next
    case (Inr u)
    then have "(c, s0, s1) = (x, s, s') \<or> (c, s0, s1) \<in> set (evaluations body cs s')"
      using Cons.prems b by simp
    then show ?thesis using Cons.IH b by auto
  qed
qed

lemma for_each_final_state:
  "snd (for_each cs body s) = last (s # map (\<lambda>(c, s0, s1). s1) (evaluations body cs s))"
proof (induction cs arbitrary: s)
  case Nil
  then show ?case by (simp add: return_io_def)
next
  case (Cons x cs)
  obtain r s' where b: "body x s = (r, s')"
    by (cases "body x s")
  show ?case
  proof (cases r)
    case (Inl e)
    then show ?thesis using b by (simp add: bind_io_def)
  next
    case (Inr u)
    then show ?thesis using b Cons.IH [of s'] by (simp add: bind_io_def)
  qed
qed

lemma for_each_all_ok:
  assumes "\<forall>c\<in>set cs. \<forall>s. fst (body c s) = Inr ()"
  shows "fst (for_each cs body s) = Inr () \<and> map fst (evaluations body cs s) = cs"
  using assms
proof (induction cs arbitrary: s)
  case Nil
  then show ?case by (simp add: return_io_def)
next
  case (Cons x cs)
  obtain s' where b: "body x s = (Inr (), s')"
    using Cons.prems by (cases "body x s") (metis fst_conv list.set_intros(1))
  then show ?case using Cons.IH [of s'] Cons.prems by (simp add: bind_io_def)
qed

lemma for_each_abort:
  assumes "\<forall>c\<in>set pre. \<forall>s. fst (body c s) = Inr ()" and "\<forall>s. fst (body comb s) = Inl e"
  shows "fst (for_each (pre @ comb # post) body s) = Inl e \<and>
     map fst (evaluations body (pre @ comb # post) s) = pre @ [comb]"
  using assms(1)
proof (induction pre arbitrary: s)
  case Nil
  obtain s' where "body comb s = (Inl e, s')"
    using assms(2) by (cases "body comb s") (metis fst_conv)
  then show ?case by (simp add: bind_io_def)
next
  case (Cons x pre)
  obtain s' where b: "body x s = (Inr (), s')"
    using Cons.prems by (cases "body x s") (metis fst_conv list.set_intros(1))
  then show ?case using Cons.IH [of s'] Cons.prems by (simp add: bind_io_def)
qed

lemma evaluations_invariant:
  assumes "I s" and "\<And>c s. I s \<Longrightarrow> I (snd (body c s))"
    and "(c, s0, s1) \<in> set (evaluations body cs s)"
  shows "I s0 \<and> I s1"
  using assms(1,3)
proof (induction cs arbitrary: s)
  case Nil
  then show ?case by simp
next
  case (Cons x cs)
  obtain r s' where b: "body x s = (r, s')"
    by (cases "body x s")
  have s': "I s'" using assms(2) [OF Cons.prems(1), of x] b by simp
  show ?case
  proof (cases r)
    case (Inl e)
    then show ?thesis using Cons.prems b s' by auto
  next
    case (Inr u)
    then have "(c, s0, s1) = (x, s, s') \<or> (c, s0, s1) \<in> set (evaluations body cs s')"
      using Cons.prems b by simp
    then show ?thesis using Cons.IH [OF s'] Cons.prems(1) s' by auto
  qed
qed

lemma length_bypass_script [simp]: "length (bypass_script m i JTAG_BYPASS_PATTERN) = 94"
  by (simp add: bypass_script_def pattern_length)

lemma length_idcode_script [simp]: "length (idcode_script m tdi) = 44"
  by (simp add: idcode_script_def split: option.splits)

lemma list_of_length_4: "length t = 4 \<Longrightarrow> t = [t ! 0, t ! 1, t ! 2, t ! 3]"
  by (auto simp: length_Suc_conv eval_nat_numeral)

lemma list_of_length_3: "length t = 3 \<Longrightarrow> t = [t ! 0, t ! 1, t ! 2]"
  by (auto simp: length_Suc_conv eval_nat_numeral)

lemma bypass_candidate_facts:
  assumes "accepts env a OUT_PP" and "accepts env b OUT_PP" and "accepts env c OUT_PP"
    and "accepts env d IN"
  obtains s1 where "bypass_candidate env [a, b, c, d] s0 = (Inr (), s1)"
    and "new_events s0 s1 =
       [Configure a OUT_PP, Configure b OUT_PP, Configure c OUT_PP, Configure d IN] @
       script_trace c d (bypass_script a b JTAG_BYPASS_PATTERN) (samples (new_events s0 s1))"
    and "length (samples (new_events s0 s1)) = 94"
    and "log s1 = log s0 @
       (if map bit_char (take 44 (drop 48 (samples (new_events s0 s1)))) = JTAG_BYPASS_PATTERN
        then [BypassInfo a b c d] else [])"
    and "TMS s1 = Some a" and "TDI s1 = Some b" and "TCK s1 = Some c" and "TDO s1 = Some d"
proof -
  let ?sb = "bypass_bound a b c d s0"
  let ?script = "bypass_script a b JTAG_BYPASS_PATTERN"
  let ?bits = "cycle_bits env c d ?script ?sb"
  let ?s1 = "(run_cycles env c d ?script ?sb)
        \<lparr>log := log s0 @
           (if map bit_char (take 44 (drop 48 ?bits)) = JTAG_BYPASS_PATTERN
            then [BypassInfo a b c d] else [])\<rparr>"
  have run: "bypass_candidate env [a, b, c, d] s0 = (Inr (), ?s1)"
    using assms by (rule bypass_candidate_run)
  have new: "new_events s0 ?s1 =
       [Configure a OUT_PP, Configure b OUT_PP, Configure c OUT_PP, Configure d IN] @
       script_trace c d ?script ?bits"
    by (simp add: new_events_def trace_run_cycles)
  have sm: "samples (new_events s0 ?s1) = ?bits"
    unfolding new by (simp add: samples_script_trace)
  show thesis
  proof (rule that [of ?s1])
    show "bypass_candidate env [a, b, c, d] s0 = (Inr (), ?s1)" by (rule run)
    show "new_events s0 ?s1 =
       [Configure a OUT_PP, Configure b OUT_PP, Configure c OUT_PP, Configure d IN] @
       script_trace c d ?script (samples (new_events s0 ?s1))"
      unfolding sm by (rule new)
    show "length (samples (new_events s0 ?s1)) = 94"
      unfolding sm by simp
    show "log ?s1 = log s0 @
       (if map bit_char (take 44 (drop 48 (samples (new_events s0 ?s1)))) = JTAG_BYPASS_PATTERN
        then [BypassInfo a b c d] else [])"
      unfolding sm by simp
  qed (simp_all add: bypass_bound_def)
qed

lemma idcode_candidate_facts:
  assumes "accepts env a OUT_PP" and "accepts env b OUT_PP" and "accepts env c IN"
  obtains s1 where "idcode_candidate env [a, b, c] s0 = (Inr (), s1)"
    and "new_events s0 s1 =
       [Configure a OUT_PP, Configure b OUT_PP, Configure c IN] @
       script_trace b c (idcode_script a (TDI s0)) (samples (new_events s0 s1))"
    and "length (samples (new_events s0 s1)) = 44"
    and "log s1 = log s0 @
       (let response = rev (map bit_char (take 32 (drop 9 (samples (new_events s0 s1)))))
        in if response \<noteq> replicate 32 CHR ''1'' \<and> response \<noteq> replicate 32 CHR ''0''
           then [IdcodeInfo a b c response] else [])"
    and "TMS s1 = Some a" and "TDI s1 = TDI s0" and "TCK s1 = Some b" and "TDO s1 = Some c"
proof -
  let ?sb = "idcode_bound a b c s0"
  let ?script = "idcode_script a (TDI s0)"
  let ?bits = "cycle_bits env b c ?script ?sb"
  let ?resp = "rev (map bit_char (take 32 (drop 9 ?bits)))"
  let ?s1 = "(run_cycles env b c ?script ?sb)
        \<lparr>log := log s0 @
           (if ?resp \<noteq> replicate 32 CHR ''1'' \<and> ?resp \<noteq> replicate 32 CHR ''0''
            then [IdcodeInfo a b c ?resp] else [])\<rparr>"
  have run: "idcode_candidate env [a, b, c] s0 = (Inr (), ?s1)"
    using idcode_candidate_run [OF assms, of s0] by (simp add: Let_def)
  have new: "new_events s0 ?s1 =
       [Configure a OUT_PP, Configure b OUT_PP, Configure c IN] @
       script_trace b c ?script ?bits"
    by (simp add: new_events_def trace_run_cycles)
  have sm: "samples (new_events s0 ?s1) = ?bits"
    unfolding new by (simp add: samples_script_trace)
  show thesis
  proof (rule that [of ?s1])
    show "idcode_candidate env [a, b, c] s0 = (Inr (), ?s1)" by (rule run)
    show "new_events s0 ?s1 =
       [Configure a OUT_PP, Configure b OUT_PP, Configure c IN] @
       script_trace b c ?script (samples (new_events s0 ?s1))"
      unfolding sm by (rule new)
    show "length (samples (new_events s0 ?s1)) = 44"
      unfolding sm by simp
    show "log ?s1 = log s0 @
       (let response = rev (map bit_char (take 32 (drop 9 (samples (new_events s0 ?s1)))))
        in if response \<noteq> replicate 32 CHR ''1'' \<and> response \<noteq> replicate 32 CHR ''0''
           then [IdcodeInfo a b c response] else [])"
      unfolding sm by (simp add: Let_def)
  qed (simp_all add: idcode_bound_def)
qed

lemma candidates_total:
  assumes "1 \<le> k"
  obtains cs where "candidates pool k = Inr cs"
    and "\<forall>t\<in>set cs. length t = k \<and> distinct t \<and> set t \<subseteq> set pool"
proof -
  let ?cs = "filter (\<lambda>item. card (set item) = k) (cartesian_power k pool)"
  have "candidates pool k = Inr ?cs"
    using assms by (rule candidates_cartesian)
  moreover have "\<forall>t\<in>set ?cs. length t = k \<and> distinct t \<and> set t \<subseteq> set pool"
    using filter_cartesian_set [of k pool] by auto
  ultimately show thesis by (rule that)
qed

lemma list_all_is_configure_literal [simp]:
  "list_all is_configure (Configure p m # evs) = list_all is_configure evs"
  by simp

lemma idcode_candidate_refused:
  assumes "\<not> (accepts env a OUT_PP \<and> accepts env b OUT_PP \<and> accepts env c IN)"
  shows "\<exists>s1. idcode_candidate env [a, b, c] s0 = (Inl ValueError, s1) \<and>
           log s1 = log s0 \<and> TDI s1 = TDI s0 \<and> list_all is_configure (new_events s0 s1)"
proof (cases "accepts env a OUT_PP")
  case False
  then show ?thesis
    by (simp add: idcode_candidate_def bind_io_def lift_io_def py_getitem_literal pyb_Pin_def
        new_events_def)
next
  case a: True
  show ?thesis
  proof (cases "accepts env b OUT_PP")
    case False
    then show ?thesis using a
      by (simp add: idcode_candidate_def bind_io_def lift_io_def py_getitem_literal pyb_Pin_def
          new_events_def)
  next
    case b: True
    then have "\<not> accepts env c IN" using assms a by simp
    then show ?thesis using a b
      by (simp add: idcode_candidate_def bind_io_def lift_io_def py_getitem_literal pyb_Pin_def
          new_events_def)
  qed
qed

lemma bypass_candidate_refused:
  assumes "\<not> (accepts env a OUT_PP \<and> accepts env b OUT_PP \<and> accepts env c OUT_PP \<and>
      accepts env d IN)"
  shows "\<exists>s1. bypass_candidate env [a, b, c, d] s0 = (Inl ValueError, s1) \<and>
           log s1 = log s0 \<and> list_all is_configure (new_events s0 s1)"
proof (cases "accepts env a OUT_PP")
  case False
  then show ?thesis
    by (simp add: bypass_candidate_def bind_io_def lift_io_def py_getitem_literal pyb_Pin_def
        new_events_def)
next
  case a: True
  show ?thesis
  proof (cases "accepts env b OUT_PP")
    case False
    then show ?thesis using a
      by (simp add: bypass_candidate_def bind_io_def lift_io_def py_getitem_literal pyb_Pin_def
          new_events_def)
  next
    case b: True
    show ?thesis
    proof (cases "accepts env c OUT_PP")
      case False
      then show ?thesis using a b
        by (simp add: bypass_candidate_def bind_io_def lift_io_def py_getitem_literal
            pyb_Pin_def new_events_def)
    next
      case c: True
      then have "\<not> accepts env d IN" using assms a b by simp
      then show ?thesis using a b c
        by (simp add: bypass_candidate_def bind_io_def lift_io_def py_getitem_literal
            pyb_Pin_def new_events_def)
    qed
  qed
qed

lemma scan_abort:
  assumes "\<forall>c\<in>set pre. \<forall>s. fst (body c s) = Inr ()"
    and "\<forall>s0. \<exists>s1. body comb s0 = (Inl e, s1) \<and> Q s0 s1"
  shows "\<exists>s0 s1. for_each (pre @ comb # post) body s = (Inl e, s1) \<and>
     evaluations body (pre @ comb # post) s = evaluations body pre s @ [(comb, s0, s1)] \<and>
     map fst (evaluations body pre s) = pre \<and> Q s0 s1"
  using assms(1)
proof (induction pre arbitrary: s)
  case Nil
  obtain s1 where "body comb s = (Inl e, s1)" "Q s s1"
    using assms(2) by blast
  then show ?case by (auto simp: bind_io_def)
next
  case (Cons x pre)
  obtain s' where b: "body x s = (Inr (), s')"
    using Cons.prems by (cases "body x s") (metis fst_conv list.set_intros(1))
  have "\<forall>c\<in>set pre. \<forall>s. fst (body c s) = Inr ()"
    using Cons.prems by simp
  from Cons.IH [OF this, of s'] obtain s0 s1 where
    "for_each (pre @ comb # post) body s' = (Inl e, s1)"
    "evaluations body (pre @ comb # post) s' = evaluations body pre s' @ [(comb, s0, s1)]"
    "map fst (evaluations body pre s') = pre" "Q s0 s1"
    by blast
  then show ?case using b
    by (intro exI [of _ s0] exI [of _ s1]) (simp add: bind_io_def)
qed

lemma bypass_candidate_ok_dir:
  assumes "length comb = 4" and "accepts env (comb ! 0) OUT_PP" and "accepts env (comb ! 1) OUT_PP"
    and "accepts env (comb ! 2) OUT_PP" and "accepts env (comb ! 3) IN"
  shows "fst (bypass_candidate env comb s) = Inr ()"
proof -
  have c: "comb = [comb ! 0, comb ! 1, comb ! 2, comb ! 3]"
    using assms(1) by (rule list_of_length_4)
  obtain s1 where
    "bypass_candidate env [comb ! 0, comb ! 1, comb ! 2, comb ! 3] s = (Inr (), s1)"
    using assms(2-5) by (rule bypass_candidate_facts)
  then show ?thesis using c by simp
qed

lemma idcode_candidate_ok_dir:
  assumes "length comb = 3" and "accepts env (comb ! 0) OUT_PP" and "accepts env (comb ! 1) OUT_PP"
    and "accepts env (comb ! 2) IN"
  shows "fst (idcode_candidate env comb s) = Inr ()"
proof -
  have c: "comb = [comb ! 0, comb ! 1, comb ! 2]"
    using assms(1) by (rule list_of_length_3)
  obtain s1 where
    "idcode_candidate env [comb ! 0, comb ! 1, comb ! 2] s = (Inr (), s1)"
    using assms(2-4) by (rule idcode_candidate_facts)
  then show ?thesis using c by simp
qed

lemma idcode_scan_abort:
  assumes cs: "candidates pool JTAG_PINS_IDCODE_COUNT = Inr (pre @ comb # post)"
    and pre: "\<forall>t\<in>set pre. accepts env (t ! 0) OUT_PP \<and> accepts env (t ! 1) OUT_PP \<and>
        accepts env (t ! 2) IN"
    and bad: "\<not> (accepts env (comb ! 0) OUT_PP \<and> accepts env (comb ! 1) OUT_PP \<and>
        accepts env (comb ! 2) IN)"
  shows "\<exists>s0 s1.
     for_each (pre @ comb # post) (idcode_candidate env) s = (Inl ValueError, s1) \<and>
     evaluations (idcode_candidate env) (pre @ comb # post) s =
       evaluations (idcode_candidate env) pre s @ [(comb, s0, s1)] \<and>
     map fst (evaluations (idcode_candidate env) pre s) = pre \<and>
     log s1 = log s0 \<and> list_all is_configure (new_events s0 s1)"
proof -
  have len: "\<forall>t\<in>set (pre @ comb # post). length t = 3"
    using candidates_set [OF _ cs] by (auto simp: JTAG_PINS_IDCODE_COUNT_def)
  have ok: "\<forall>c\<in>set pre. \<forall>s. fst (idcode_candidate env c s) = Inr ()"
    using len pre by (simp add: idcode_candidate_ok_dir)
  have c: "comb = [comb ! 0, comb ! 1, comb ! 2]"
    using len by (intro list_of_length_3) simp
  have "\<forall>s0. \<exists>s1. idcode_candidate env comb s0 = (Inl ValueError, s1) \<and>
      (log s1 = log s0 \<and> list_all is_configure (new_events s0 s1))"
  proof
    fix s0
    from idcode_candidate_refused [OF bad, of s0] c
    show "\<exists>s1. idcode_candidate env comb s0 = (Inl ValueError, s1) \<and>
        (log s1 = log s0 \<and> list_all is_configure (new_events s0 s1))"
      by auto
  qed
  from scan_abort [OF ok this, of post s] show ?thesis .
qed

lemma bypass_scan_abort:
  assumes cs: "candidates pool JTAG_PINS_BYPASS_COUNT = Inr (pre @ comb # post)"
    and pre: "\<forall>t\<in>set pre. accepts env (t ! 0) OUT_PP \<and> accepts env (t ! 1) OUT_PP \<and>
        accepts env (t ! 2) OUT_PP \<and> accepts env (t ! 3) IN"
    and bad: "\<not> (accepts env (comb ! 0) OUT_PP \<and> accepts env (comb ! 1) OUT_PP \<and>
        accepts env (comb ! 2) OUT_PP \<and> accepts env (comb ! 3) IN)"
  shows "\<exists>s0 s1.
     for_each (pre @ comb # post) (bypass_candidate env) s = (Inl ValueError, s1) \<and>
     evaluations (bypass_candidate env) (pre @ comb # post) s =
       evaluations (bypass_candidate env) pre s @ [(comb, s0, s1)] \<and>
     map fst (evaluations (bypass_candidate env) pre s) = pre \<and>
     log s1 = log s0 \<and> list_all is_configure (new_events s0 s1)"
proof -
  have len: "\<forall>t\<in>set (pre @ comb # post). length t = 4"
    using candidates_set [OF _ cs] by (auto simp: JTAG_PINS_BYPASS_COUNT_def)
  have ok: "\<forall>c\<in>set pre. \<forall>s. fst (bypass_candidate env c s) = Inr ()"
    using len pre by (simp add: bypass_candidate_ok_dir)
  have c: "comb = [comb ! 0, comb ! 1, comb ! 2, comb ! 3]"
    using len by (intro list_of_length_4) simp
  have "\<forall>s0. \<exists>s1. bypass_candidate env comb s0 = (Inl ValueError, s1) \<and>
      (log s1 = log s0 \<and> list_all is_configure (new_events s0 s1))"
  proof
    fix s0
    from bypass_candidate_refused [OF bad, of s0] c
    show "\<exists>s1. bypass_candidate env comb s0 = (Inl ValueError, s1) \<and>
        (log s1 = log s0 \<and> list_all is_configure (new_events s0 s1))"
      by auto
  qed
  from scan_abort [OF ok this, of post s] show ?thesis .
qed

lemma candidates_1234_arity_3:
  "candidates [1, 2, 3, 4::nat] JTAG_PINS_IDCODE_COUNT =
     Inr [[1, 2, 3], [1, 2, 4], [1, 3, 2], [1, 3, 4], [1, 4, 2], [1, 4, 3],
          [2, 1, 3], [2, 1, 4], [2, 3, 1], [2, 3, 4], [2, 4, 1], [2, 4, 3],
          [3, 1, 2], [3, 1, 4], [3, 2, 1], [3, 2, 4], [3, 4, 1], [3, 4, 2],
          [4, 1, 2], [4, 1, 3], [4, 2, 1], [4, 2, 3], [4, 3, 1], [4, 3, 2]]"
  by (simp add: candidates_cartesian JTAG_PINS_IDCODE_COUNT_def eval_nat_numeral card_insert_if)

lemma candidates_1234_arity_4:
  "candidates [1, 2, 3, 4::nat] JTAG_PINS_BYPASS_COUNT =
     Inr [[1, 2, 3, 4], [1, 2, 4, 3], [1, 3, 2, 4], [1, 3, 4, 2], [1, 4, 2, 3],
      [1, 4, 3, 2], [2, 1, 3, 4], [2, 1, 4, 3], [2, 3, 1, 4], [2, 3, 4, 1],
      [2, 4, 1, 3], [2, 4, 3, 1], [3, 1, 2, 4], [3, 1, 4, 2], [3, 2, 1, 4],
      [3, 2, 4, 1], [3, 4, 1, 2], [3, 4, 2, 1], [4, 1, 2, 3], [4, 1, 3, 2],
      [4, 2, 1, 3], [4, 2, 3, 1], [4, 3, 1, 2], [4, 3, 2, 1]]"
  by (simp add: candidates_cartesian JTAG_PINS_BYPASS_COUNT_def eval_nat_numeral card_insert_if)

section \<open>Statements that do not assign TDI\<close>

lemma keeps_TDI_bind:
  assumes "keeps_TDI m" and "\<And>a. keeps_TDI (f a)"
  shows "keeps_TDI (bind_io m f)"
  unfolding keeps_TDI_def
proof
  fix s
  obtain r s' where m: "m s = (r, s')"
    by (cases "m s")
  have s': "TDI s' = TDI s"
    using assms(1) m by (auto simp: keeps_TDI_def dest: spec [of _ s])
  show "TDI (snd (bind_io m f s)) = TDI s"
  proof (cases r)
    case (Inl e)
    then show ?thesis using m s' by (simp add: bind_io_def)
  next
    case (Inr a)
    then show ?thesis using m s' assms(2) [of a]
      by (simp add: bind_io_def keeps_TDI_def)
  qed
qed

lemma keeps_TDI_state_dep:
  "(\<And>x. keeps_TDI (f x)) \<Longrightarrow> keeps_TDI (\<lambda>s. f (g s) s)"
  by (simp add: keeps_TDI_def)

lemma keeps_TDI_prims:
  "keeps_TDI (return_io a)"
  "keeps_TDI (raise_io e)"
  "keeps_TDI (lift_io r)"
  "keeps_TDI (emit ev)"
  "keeps_TDI (delay ms)"
  "keeps_TDI (pin_value_attr h)"
  "keeps_TDI (pin_read env p)"
  "keeps_TDI (pyb_Pin env p m)"
  "keeps_TDI (log_info entry)"
  "keeps_TDI (\<lambda>s. (Inr (), s\<lparr>TMS := x\<rparr>))"
  "keeps_TDI (\<lambda>s. (Inr (), s\<lparr>TCK := x\<rparr>))"
  "keeps_TDI (\<lambda>s. (Inr (), s\<lparr>TDO := x\<rparr>))"
  by (simp_all add: keeps_TDI_def return_io_def raise_io_def lift_io_def emit_def delay_def
      pin_value_attr_def pin_read_def pyb_Pin_def log_info_def Let_def split: option.splits)

lemma keeps_TDI_set_lines: "keeps_TDI (set_lines pins states ks)"
  by (induction ks) (auto intro!: keeps_TDI_bind keeps_TDI_prims)

lemma keeps_TDI_io_values: "keeps_TDI (io_values env pins states)"
  unfolding io_values_def Let_def
  by (intro keeps_TDI_bind keeps_TDI_prims keeps_TDI_set_lines
      keeps_TDI_state_dep [where f = pin_value_attr])

lemma keeps_TDI_io_tms_loop: "keeps_TDI (io_tms_loop env vs)"
proof (induction vs)
  case Nil
  then show ?case by (simp add: keeps_TDI_prims)
next
  case (Cons v vs)
  have "keeps_TDI (\<lambda>s. return_io [TMS s] s)"
    by (simp add: keeps_TDI_def return_io_def)
  then show ?case using Cons
    by (auto intro!: keeps_TDI_bind keeps_TDI_prims keeps_TDI_io_values)
qed

lemma keeps_TDI_io_tms_tdi_loop: "keeps_TDI (io_tms_tdi_loop env ps)"
proof (induction ps)
  case Nil
  then show ?case by (simp add: keeps_TDI_prims)
next
  case (Cons p ps)
  obtain a b where p: "p = (a, b)"
    by (cases p)
  have "keeps_TDI (\<lambda>s. return_io [TMS s, TDI s] s)"
    by (simp add: keeps_TDI_def return_io_def)
  then show ?case using Cons unfolding p
    by (auto intro!: keeps_TDI_bind keeps_TDI_prims keeps_TDI_io_values)
qed

lemma keeps_TDI_io_tms: "keeps_TDI (io_tms env vs)"
  unfolding io_tms_def by (intro keeps_TDI_bind keeps_TDI_prims keeps_TDI_io_tms_loop)

lemma keeps_TDI_io_tms_tdi: "keeps_TDI (io_tms_tdi env as bs)"
  unfolding io_tms_tdi_def by (intro keeps_TDI_bind keeps_TDI_prims keeps_TDI_io_tms_tdi_loop)

lemma keeps_TDI_shift_array: "keeps_TDI (shift_array env data)"
  using keeps_TDI_io_tms [of env data]
    keeps_TDI_io_tms_tdi [of env "replicate (length data - 1) CHR ''0'' @ ''1''" data]
  by (simp add: shift_array_def Let_def keeps_TDI_def)

lemma keeps_TDI_idcode_test: "keeps_TDI (idcode_test env)"
  unfolding idcode_test_def restore_idle_def enter_shift_dr_def
  by (intro keeps_TDI_bind keeps_TDI_prims keeps_TDI_io_tms keeps_TDI_shift_array)

lemma keeps_TDI_idcode_candidate: "keeps_TDI (idcode_candidate env comb)"
proof -
  have "keeps_TDI (if c then log_info entry else return_io ())" for c and entry :: "'a log_entry"
    by (simp add: keeps_TDI_prims)
  then show ?thesis
    unfolding idcode_candidate_def
    by (intro keeps_TDI_bind keeps_TDI_prims keeps_TDI_idcode_test)
qed

lemma keeps_TDI_for_each:
  "(\<And>c. keeps_TDI (body c)) \<Longrightarrow> keeps_TDI (for_each cs body)"
  by (induction cs) (auto intro!: keeps_TDI_bind keeps_TDI_prims)

lemma keeps_TDI_idcode_search: "keeps_TDI (idcode_search env self)"
  unfolding idcode_search_def
  by (intro keeps_TDI_bind keeps_TDI_prims keeps_TDI_for_each keeps_TDI_idcode_candidate)

section \<open>What the searches do to TDI\<close>

lemma candidates_nonempty:
  assumes "distinct pool" and "1 \<le> k" and "k \<le> length pool"
    and "candidates pool k = Inr cs"
  shows "cs \<noteq> []"
proof -
  have "length (take k pool) = k" "distinct (take k pool)" "set (take k pool) \<subseteq> set pool"
    using assms(1,3) by (simp_all add: set_take_subset)
  then have "take k pool \<in> set cs"
    using candidates_set [OF assms(2,4)] by simp
  then show ?thesis by auto
qed

lemma bypass_search_final_TDI:
  assumes cs: "candidates (pins_scope self) JTAG_PINS_BYPASS_COUNT = Inr cs" and ne: "cs \<noteq> []"
    and acc: "\<forall>p\<in>set (pins_scope self). accepts env p OUT_PP \<and> accepts env p IN"
  shows "\<exists>s1. bypass_search env self s = (Inr (), s1) \<and> TDI s1 = Some (last cs ! 1)"
proof -
  let ?body = "bypass_candidate env"
  let ?evs = "evaluations ?body cs s"
  have tuples: "\<forall>t\<in>set cs. length t = 4 \<and> set t \<subseteq> set (pins_scope self)"
    using candidates_set [OF _ cs] by (auto simp: JTAG_PINS_BYPASS_COUNT_def)
  have dirs: "accepts env (t ! 0) OUT_PP \<and> accepts env (t ! 1) OUT_PP \<and>
      accepts env (t ! 2) OUT_PP \<and> accepts env (t ! 3) IN" if "t \<in> set cs" for t
  proof -
    have "length t = 4" "set t \<subseteq> set (pins_scope self)"
      using tuples that by simp_all
    then have "\<forall>j<4. t ! j \<in> set (pins_scope self)"
      by (auto simp: subset_iff)
    then show ?thesis using acc by simp
  qed
  have ok: "\<forall>c\<in>set cs. \<forall>s. fst (?body c s) = Inr ()"
    using tuples dirs by (simp add: bypass_candidate_ok_dir)
  have all: "fst (for_each cs ?body s) = Inr ()" "map fst ?evs = cs"
    using for_each_all_ok [OF ok, of s] by simp_all
  have evs: "?evs \<noteq> []"
    using all(2) ne by auto
  obtain c s0 s1 where l: "last ?evs = (c, s0, s1)"
    by (cases "last ?evs")
  have c: "c = last cs"
    using l evs all(2) last_map [OF evs, of fst] by simp
  have "(c, s0, s1) \<in> set ?evs"
    using l evs last_in_set by metis
  then have m: "c \<in> set cs" and s1: "s1 = snd (?body c s0)"
    using evaluations_member by fastforce+
  have shape: "c = [c ! 0, c ! 1, c ! 2, c ! 3]"
    using tuples m by (intro list_of_length_4) simp
  have "accepts env (c ! 0) OUT_PP" "accepts env (c ! 1) OUT_PP"
    "accepts env (c ! 2) OUT_PP" "accepts env (c ! 3) IN"
    using dirs [OF m] by simp_all
  then obtain t1 where "bypass_candidate env [c ! 0, c ! 1, c ! 2, c ! 3] s0 = (Inr (), t1)"
    and "TDI t1 = Some (c ! 1)"
    by (rule bypass_candidate_facts [of env _ _ _ _ s0])
  then have tdi: "TDI s1 = Some (c ! 1)"
    using s1 shape by simp
  have final: "snd (for_each cs ?body s) = s1"
    using for_each_final_state [of cs ?body s] evs l by (simp add: last_map)
  have "bypass_search env self s = (Inr (), s1)"
    using all(1) final by (simp add: bypass_search_def cs prod_eq_iff)
  then show ?thesis using tdi c by blast
qed

lemma idcode_search_scripts:
  assumes acc: "\<forall>p\<in>set (pins_scope self). accepts env p OUT_PP \<and> accepts env p IN"
  shows "\<exists>cs s2.
     candidates (pins_scope self) JTAG_PINS_IDCODE_COUNT = Inr cs \<and>
     idcode_search env self s = (Inr (), s2) \<and> TDI s2 = TDI s \<and>
     map fst (evaluations (idcode_candidate env) cs s) = cs \<and>
     (\<forall>(comb, s0, s1) \<in> set (evaluations (idcode_candidate env) cs s).
        new_events s0 s1 =
          [Configure (comb ! 0) OUT_PP, Configure (comb ! 1) OUT_PP, Configure (comb ! 2) IN] @
          script_trace (comb ! 1) (comb ! 2) (idcode_script (comb ! 0) (TDI s))
            (samples (new_events s0 s1)))"
proof -
  let ?body = "idcode_candidate env"
  obtain cs where cs: "candidates (pins_scope self) JTAG_PINS_IDCODE_COUNT = Inr cs"
    and tuples: "\<forall>t\<in>set cs. length t = JTAG_PINS_IDCODE_COUNT \<and> distinct t \<and>
        set t \<subseteq> set (pins_scope self)"
    by (rule candidates_total [of JTAG_PINS_IDCODE_COUNT "pins_scope self"])
      (simp add: JTAG_PINS_IDCODE_COUNT_def)
  have a: "length t = 3 \<and> (\<forall>p\<in>set t. accepts env p OUT_PP \<and> accepts env p IN)"
    if "t \<in> set cs" for t
    using that tuples acc by (auto simp: JTAG_PINS_IDCODE_COUNT_def)
  have ok: "\<forall>c\<in>set cs. \<forall>s. fst (?body c s) = Inr ()"
    using a by (simp add: idcode_candidate_ok_dir)
  have all: "fst (for_each cs ?body s) = Inr ()" "map fst (evaluations ?body cs s) = cs"
    using for_each_all_ok [OF ok, of s] by simp_all
  have keep: "TDI (snd (idcode_search env self s)) = TDI s"
    using keeps_TDI_idcode_search [of env self] by (simp add: keeps_TDI_def)
  have run: "idcode_search env self s = (Inr (), snd (idcode_search env self s))"
    using all(1) by (simp add: idcode_search_def cs prod_eq_iff)
  have each: "new_events s0 s1 =
          [Configure (comb ! 0) OUT_PP, Configure (comb ! 1) OUT_PP, Configure (comb ! 2) IN] @
          script_trace (comb ! 1) (comb ! 2) (idcode_script (comb ! 0) (TDI s))
            (samples (new_events s0 s1))"
    if ev: "(comb, s0, s1) \<in> set (evaluations ?body cs s)" for comb s0 s1
  proof -
    from evaluations_member [OF ev] have m: "comb \<in> set cs" and s1: "s1 = snd (?body comb s0)"
      by simp_all
    have "TDI s0 = TDI s \<and> TDI s1 = TDI s"
    proof (rule evaluations_invariant [where I = "\<lambda>x. TDI x = TDI s", OF _ _ ev])
      show "TDI s = TDI s" by simp
      show "TDI (snd (?body c x)) = TDI s" if "TDI x = TDI s" for c x
        using keeps_TDI_idcode_candidate [of env c] that by (simp add: keeps_TDI_def)
    qed
    then have s0: "TDI s0 = TDI s" by simp
    have c: "comb = [comb ! 0, comb ! 1, comb ! 2]"
      using a [OF m] by (intro list_of_length_3) simp
    have "accepts env (comb ! 0) OUT_PP" "accepts env (comb ! 1) OUT_PP"
      "accepts env (comb ! 2) IN"
      using a [OF m] by simp_all
    then obtain t1 where t1:
      "idcode_candidate env [comb ! 0, comb ! 1, comb ! 2] s0 = (Inr (), t1)"
      "new_events s0 t1 =
         [Configure (comb ! 0) OUT_PP, Configure (comb ! 1) OUT_PP, Configure (comb ! 2) IN] @
         script_trace (comb ! 1) (comb ! 2) (idcode_script (comb ! 0) (TDI s0))
           (samples (new_events s0 t1))"
      by (rule idcode_candidate_facts [of env _ _ _ s0])
    have "t1 = s1" using t1(1) s1 c by simp
    then show ?thesis using t1(2) s0 by simp
  qed
  show ?thesis
    by (intro exI [of _ cs] exI [of _ "snd (idcode_search env self s)"] conjI cs run keep all(2))
      (use each in blast)
qed

lemma idcode_capture_scripts:
  "take 32 (drop 9 (idcode_script m (Some i))) =
     replicate 31 [(m, False), (i, False)] @ [[(m, True), (i, False)]]"
  "take 32 (drop 9 (idcode_script m None)) = replicate 32 [(m, False)]"
  by (simp_all add: idcode_script_def tms_script_def tms_tdi_script_def eval_nat_numeral)

lemma driven_clock_cycle:
  "driven q (clock_cycle ck d outs b) = driven q (pulse ck outs)"
  by (simp add: clock_cycle_def)

lemma driven_script_trace:
  "length bits = length script \<Longrightarrow>
     driven q (script_trace ck d script bits) =
       concat (map (\<lambda>outs. driven q (pulse ck outs)) script)"
proof (induction bits script rule: list_induct2)
  case Nil
  then show ?case by (simp add: script_trace_def)
next
  case (Cons b bits outs script)
  have "script_trace ck d (outs # script) (b # bits) =
      clock_cycle ck d outs b @ script_trace ck d script bits"
    by (simp add: script_trace_def)
  then show ?case using Cons by (simp add: driven_clock_cycle)
qed

lemma driven_idcode_stale:
  assumes "length bits = 44"
  shows "take 32 (drop 9 (driven 1 (script_trace (2::nat) 3 (idcode_script 1 (Some 3)) bits))) =
      replicate 31 False @ [True]"
    and "driven 3 (script_trace (2::nat) 3 (idcode_script 1 (Some 3)) bits) = replicate 32 False"
  using assms
  by (simp_all add: driven_script_trace)
    (simp_all add: idcode_script_def tms_script_def tms_tdi_script_def pulse_def
      eval_nat_numeral)

section \<open>The claims about the candidate enumerator\<close>

text \<open>
  C8. For every pool and every arity \<open>k\<close> of at least one position, \<open>_product\<close> yields
  the \<open>k\<close>-fold Cartesian product of the pool in counting order, the last position
  varying fastest: it is the list the nested loops with the rightmost position innermost
  produce, and the tuple yielded for the counter \<open>j\<close> holds at position \<open>p\<close> the digit of
  weight \<open>n ^ (k - 1 - p)\<close> of \<open>j\<close> in base \<open>n\<close>. For the pool \<open>[P0, P1, P2]\<close> and
  \<open>k = 2\<close> the nine tuples come in the order stated, and for distinct \<open>P0\<close>, \<open>P1\<close>,
  \<open>P2\<close> six of them remain, in that order, after the tuples with a repeated entry are
  discarded.
\<close>

theorem product_counting_order:
  "(1 \<le> k \<longrightarrow>
      product_gen pool k = Inr (cartesian_power k pool) \<and>
      (\<forall>j < length pool ^ k. \<forall>p < k.
         cartesian_power k pool ! j ! p =
           pool ! ((j div length pool ^ (k - 1 - p)) mod length pool))) \<and>
   product_gen [P0, P1, P2] 2 =
     Inr [[P0, P0], [P0, P1], [P0, P2], [P1, P0], [P1, P1], [P1, P2],
          [P2, P0], [P2, P1], [P2, P2]] \<and>
   (distinct [P0, P1, P2] \<longrightarrow>
      candidates [P0, P1, P2] 2 =
        Inr [[P0, P1], [P0, P2], [P1, P0], [P1, P2], [P2, P0], [P2, P1]])"
proof (intro conjI impI allI)
  assume "1 \<le> k"
  then show "product_gen pool k = Inr (cartesian_power k pool)"
    by (rule product_gen_cartesian)
next
  fix j p assume j: "j < length pool ^ k" and p: "p < k"
  have "cartesian_power k pool ! j = digit_tuple pool k j"
    using j nth_map [of j "[0..<length pool ^ k]" "digit_tuple pool k"]
    by (simp add: digit_tuples_cartesian)
  then show "cartesian_power k pool ! j ! p =
      pool ! ((j div length pool ^ (k - 1 - p)) mod length pool)"
    using p by (simp add: digit_tuple_def)
next
  have two: "cartesian_power 2 [P0, P1, P2] =
      [[P0, P0], [P0, P1], [P0, P2], [P1, P0], [P1, P1], [P1, P2],
       [P2, P0], [P2, P1], [P2, P2]]"
    by (simp add: numeral_2_eq_2)
  show "product_gen [P0, P1, P2] 2 =
     Inr [[P0, P0], [P0, P1], [P0, P2], [P1, P0], [P1, P1], [P1, P2],
          [P2, P0], [P2, P1], [P2, P2]]"
    by (simp add: product_gen_cartesian two)
  assume "distinct [P0, P1, P2]"
  then show "candidates [P0, P1, P2] 2 =
        Inr [[P0, P1], [P0, P2], [P1, P0], [P1, P2], [P2, P0], [P2, P1]]"
    by (auto simp add: candidates_cartesian two card_insert_if)
qed

theorem product_counting_order_witness:
  "(1::nat) \<le> 2 \<and> distinct [0, 1, 2::nat] \<and>
   product_gen [0, 1, 2::nat] 2 = Inr (cartesian_power 2 [0, 1, 2]) \<and>
   cartesian_power 2 [0, 1, 2::nat] ! 5 ! 1 = [0, 1, 2] ! ((5 div 3 ^ 0) mod 3) \<and>
   candidates [0, 1, 2::nat] 2 = Inr [[0, 1], [0, 2], [1, 0], [1, 2], [2, 0], [2, 1]]"
proof -
  have h: "(1::nat) \<le> 2" and d: "distinct [0, 1, 2::nat]"
    by simp_all
  note t = product_counting_order [of 2 "[0, 1, 2::nat]" 0 1 2]
  from t h have "product_gen [0, 1, 2::nat] 2 = Inr (cartesian_power 2 [0, 1, 2])"
    by blast
  moreover from t h have "\<forall>j < length [0, 1, 2::nat] ^ 2. \<forall>p < 2.
      cartesian_power 2 [0, 1, 2::nat] ! j ! p =
        [0, 1, 2] ! ((j div length [0, 1, 2::nat] ^ (2 - 1 - p)) mod length [0, 1, 2::nat])"
    by blast
  then have "cartesian_power 2 [0, 1, 2::nat] ! 5 ! 1 = [0, 1, 2] ! ((5 div 3 ^ 0) mod 3)"
    by (simp add: numeral_2_eq_2)
  moreover from t d have
    "candidates [0, 1, 2::nat] 2 = Inr [[0, 1], [0, 2], [1, 0], [1, 2], [2, 0], [2, 1]]"
    by blast
  ultimately show ?thesis using h d by blast
qed

text \<open>
  C2. For every pool of \<open>N\<close> pairwise distinct pins and every arity \<open>k\<close> from 1 to
  \<open>N\<close> (3 and 4 among them), the candidates of a scan, that is the output of \<open>_product\<close>
  restricted to the tuples whose entries are pairwise distinct, are exactly
  \<open>N! / (N - k)!\<close> tuples; each has length \<open>k\<close>, none appears twice, none holds a pin
  twice, and every such arrangement of pins of the pool is among them.
\<close>

theorem candidates_are_k_permutations:
  assumes "distinct pool" and "1 \<le> k" and "k \<le> length pool"
  shows "\<exists>cs. candidates pool k = Inr cs \<and>
           length cs = fact (length pool) div fact (length pool - k) \<and>
           distinct cs \<and>
           (\<forall>t\<in>set cs. length t = k \<and> distinct t) \<and>
           set cs = {t. length t = k \<and> distinct t \<and> set t \<subseteq> set pool}"
proof -
  let ?cs = "filter (\<lambda>item. card (set item) = k) (cartesian_power k pool)"
  have c: "candidates pool k = Inr ?cs"
    using assms(2) by (rule candidates_cartesian)
  have "length ?cs = fact (length pool) div fact (length pool - k)"
    using assms(1,3) by (rule length_filter_cartesian)
  moreover have "distinct ?cs"
    using assms(1) by (simp add: distinct_cartesian_power)
  moreover have s: "set ?cs = {t. length t = k \<and> distinct t \<and> set t \<subseteq> set pool}"
    by (rule filter_cartesian_set)
  moreover have "\<forall>t\<in>set ?cs. length t = k \<and> distinct t"
    unfolding s by simp
  ultimately show ?thesis using c by blast
qed

theorem candidates_are_k_permutations_witness:
  "distinct [1, 2, 3, 4::nat] \<and> (1::nat) \<le> 3 \<and> 3 \<le> length [1, 2, 3, 4::nat] \<and>
   (\<exists>cs. candidates [1, 2, 3, 4::nat] 3 = Inr cs \<and> length cs = 24 \<and> distinct cs \<and>
      (\<forall>t\<in>set cs. length t = 3 \<and> distinct t))"
proof -
  have h: "distinct [1, 2, 3, 4::nat]" "(1::nat) \<le> 3" "3 \<le> length [1, 2, 3, 4::nat]"
    by simp_all
  have f: "fact (length [1, 2, 3, 4::nat]) div fact (length [1, 2, 3, 4::nat] - 3) = (24::nat)"
    by (simp add: fact_numeral)
  from candidates_are_k_permutations [OF h] obtain cs where
    "candidates [1, 2, 3, 4::nat] 3 = Inr cs"
    "length cs = fact (length [1, 2, 3, 4::nat]) div fact (length [1, 2, 3, 4::nat] - 3)"
    "distinct cs" "\<forall>t\<in>set cs. length t = 3 \<and> distinct t"
    by blast
  then show ?thesis using h f by (intro conjI exI [of _ cs]) simp_all
qed

section \<open>The claim about the bit clocker\<close>

text \<open>
  C4. A call of the bit clocker with bound clock and output lines and one value for each
  of its lines emits exactly: the clock driven low, every (line, value) pair applied in
  order, the clock driven high, the clock driven low, the output line sampled, with a
  delay after each phase; it returns the sampled level. When the clock is not among the
  lines of the call, the levels driven on the clock are low, high, low and no other.
\<close>

theorem io_values_clock_shape:
  assumes "TCK s = Some ck" and "TDO s = Some d" and "length states = length lines"
  shows "\<exists>b s'. io_values env (map Some lines) states s = (Inr b, s') \<and>
           b = level env (butlast (trace s')) d \<and>
           new_events s s' =
             [SetLevel ck False, Delay 0] @
             map (\<lambda>(p, v). SetLevel p (v \<noteq> 0)) (zip lines states) @
             [Delay 0, SetLevel ck True, Delay 0, SetLevel ck False, Delay 0, ReadLevel d b] \<and>
           line_events (new_events s s') =
             [SetLevel ck False] @
             map (\<lambda>(p, v). SetLevel p (v \<noteq> 0)) (zip lines states) @
             [SetLevel ck True, SetLevel ck False, ReadLevel d b] \<and>
           (ck \<notin> set lines \<longrightarrow> driven ck (new_events s s') = [False, True, False]) \<and>
           TMS s' = TMS s \<and> TDI s' = TDI s \<and> TCK s' = TCK s \<and> TDO s' = TDO s \<and>
           log s' = log s"
proof -
  let ?outs = "zip lines (map (\<lambda>v. v \<noteq> 0) states)"
  let ?b = "level env (trace s @ pulse ck ?outs) d"
  let ?s' = "s\<lparr>trace := trace s @ clock_cycle ck d ?outs ?b\<rparr>"
  have m: "map (\<lambda>(p, v). SetLevel p v) ?outs =
      map (\<lambda>(p, v). SetLevel p (v \<noteq> 0)) (zip lines states)"
    using assms(3) by (intro nth_equalityI) simp_all
  have run: "io_values env (map Some lines) states s = (Inr ?b, ?s')"
    using io_values_run [OF assms, of env] by (simp add: Let_def)
  have b: "?b = level env (butlast (trace ?s')) d"
    by (simp add: clock_cycle_def butlast_append)
  have new: "new_events s ?s' =
      [SetLevel ck False, Delay 0] @
      map (\<lambda>(p, v). SetLevel p (v \<noteq> 0)) (zip lines states) @
      [Delay 0, SetLevel ck True, Delay 0, SetLevel ck False, Delay 0, ReadLevel d ?b]"
    by (simp add: clock_cycle_def pulse_def m)
  have le: "line_events (new_events s ?s') =
      [SetLevel ck False] @
      map (\<lambda>(p, v). SetLevel p (v \<noteq> 0)) (zip lines states) @
      [SetLevel ck True, SetLevel ck False, ReadLevel d ?b]"
    by (simp add: clock_cycle_def pulse_def) (simp add: m)
  have dr: "driven ck (new_events s ?s') = [False, True, False]" if "ck \<notin> set lines"
  proof -
    have "ck \<notin> fst ` set ?outs"
      using that by (auto dest: set_zip_leftD)
    then have "driven ck (map (\<lambda>(p, v). SetLevel p v) ?outs) = []"
      by (rule driven_other_lines)
    then show ?thesis by (simp add: clock_cycle_def pulse_def)
  qed
  show ?thesis
    by (intro exI [of _ ?b] exI [of _ ?s'] conjI impI run b new le dr) simp_all
qed

theorem io_values_clock_shape_witness:
  "TCK (fresh_module\<lparr>TCK := Some 2, TDO := Some 3\<rparr>) = Some (2::nat) \<and>
   TDO (fresh_module\<lparr>TCK := Some 2, TDO := Some 3\<rparr>) = Some (3::nat) \<and>
   length [1::int, 0] = length [0::nat, 1] \<and> (2::nat) \<notin> set [0, 1] \<and>
   (\<exists>b s'. io_values quiet_board (map Some [0::nat, 1]) [1, 0]
              (fresh_module\<lparr>TCK := Some 2, TDO := Some 3\<rparr>) = (Inr b, s') \<and>
      line_events (new_events (fresh_module\<lparr>TCK := Some 2, TDO := Some 3\<rparr>) s') =
        [SetLevel 2 False, SetLevel 0 True, SetLevel 1 False, SetLevel 2 True, SetLevel 2 False,
         ReadLevel 3 b] \<and>
      driven 2 (new_events (fresh_module\<lparr>TCK := Some 2, TDO := Some 3\<rparr>) s') =
        [False, True, False])"
proof -
  let ?s = "fresh_module\<lparr>TCK := Some (2::nat), TDO := Some 3\<rparr>"
  have h: "TCK ?s = Some 2" "TDO ?s = Some 3" "length [1::int, 0] = length [0::nat, 1]"
    by (simp_all add: fresh_module_def)
  have n: "(2::nat) \<notin> set [0, 1]"
    by simp
  from io_values_clock_shape [OF h, of quiet_board] obtain b s' where
    "io_values quiet_board (map Some [0::nat, 1]) [1, 0] ?s = (Inr b, s')"
    "line_events (new_events ?s s') =
       [SetLevel 2 False] @
       map (\<lambda>(p, v). SetLevel p (v \<noteq> 0)) (zip [0::nat, 1] [1::int, 0]) @
       [SetLevel 2 True, SetLevel 2 False, ReadLevel 3 b]"
    "2 \<notin> set [0::nat, 1] \<longrightarrow> driven 2 (new_events ?s s') = [False, True, False]"
    by blast
  then show ?thesis using h n by (intro conjI exI [of _ b] exI [of _ s']) simp_all
qed

section \<open>The claims about the two scans\<close>

lemma bypass_search_unfold:
  "candidates (pins_scope self) JTAG_PINS_BYPASS_COUNT = Inr cs \<Longrightarrow>
     bypass_search env self s = for_each cs (bypass_candidate env) s"
  by (simp add: bypass_search_def)

lemma idcode_search_unfold:
  "candidates (pins_scope self) JTAG_PINS_IDCODE_COUNT = Inr cs \<Longrightarrow>
     idcode_search env self s = for_each cs (idcode_candidate env) s"
  by (simp add: idcode_search_def)

lemma bypass_candidate_ok:
  assumes "length comb = 4" and "\<forall>p\<in>set comb. accepts env p OUT_PP \<and> accepts env p IN"
  shows "fst (bypass_candidate env comb s) = Inr ()"
proof -
  have c: "comb = [comb ! 0, comb ! 1, comb ! 2, comb ! 3]"
    using assms(1) by (rule list_of_length_4)
  have "accepts env (comb ! 0) OUT_PP" "accepts env (comb ! 1) OUT_PP"
    "accepts env (comb ! 2) OUT_PP" "accepts env (comb ! 3) IN"
    using assms by simp_all
  then obtain s1 where
    "bypass_candidate env [comb ! 0, comb ! 1, comb ! 2, comb ! 3] s = (Inr (), s1)"
    by (rule bypass_candidate_facts)
  then show ?thesis using c by simp
qed

lemma idcode_candidate_ok:
  assumes "length comb = 3" and "\<forall>p\<in>set comb. accepts env p OUT_PP \<and> accepts env p IN"
  shows "fst (idcode_candidate env comb s) = Inr ()"
proof -
  have c: "comb = [comb ! 0, comb ! 1, comb ! 2]"
    using assms(1) by (rule list_of_length_3)
  have "accepts env (comb ! 0) OUT_PP" "accepts env (comb ! 1) OUT_PP"
    "accepts env (comb ! 2) IN"
    using assms by simp_all
  then obtain s1 where
    "idcode_candidate env [comb ! 0, comb ! 1, comb ! 2] s = (Inr (), s1)"
    by (rule idcode_candidate_facts)
  then show ?thesis using c by simp
qed

text \<open>
  C1. On an adapter that accepts the pins of the pool, \<open>bypass_search\<close> evaluates every
  candidate of its enumeration, in order, and returns normally. The evaluation of a
  candidate clocks the 94 cycles of the BYPASS script and samples the output line once in
  each; the data register shift is the 44 cycles after the first 48. The evaluation logs
  the candidate exactly when the 44 levels sampled during that shift, written as digits,
  equal the test pattern, and logs nothing otherwise; either way the scan goes on.
\<close>

theorem bypass_search_reports_iff_match:
  assumes "\<forall>p\<in>set (pins_scope self). accepts env p OUT_PP \<and> accepts env p IN"
  shows "\<exists>cs s'.
     candidates (pins_scope self) JTAG_PINS_BYPASS_COUNT = Inr cs \<and>
     bypass_search env self s = (Inr (), s') \<and>
     map fst (evaluations (bypass_candidate env) cs s) = cs \<and>
     s' = last (s # map (\<lambda>(comb, s0, s1). s1) (evaluations (bypass_candidate env) cs s)) \<and>
     (\<forall>(comb, s0, s1) \<in> set (evaluations (bypass_candidate env) cs s).
        bypass_candidate env comb s0 = (Inr (), s1) \<and>
        new_events s0 s1 =
          [Configure (comb ! 0) OUT_PP, Configure (comb ! 1) OUT_PP,
           Configure (comb ! 2) OUT_PP, Configure (comb ! 3) IN] @
          script_trace (comb ! 2) (comb ! 3)
            (bypass_script (comb ! 0) (comb ! 1) JTAG_BYPASS_PATTERN)
            (samples (new_events s0 s1)) \<and>
        length (samples (new_events s0 s1)) = 94 \<and>
        log s1 = log s0 @
          (if map bit_char (take 44 (drop 48 (samples (new_events s0 s1)))) =
              JTAG_BYPASS_PATTERN
           then [BypassInfo (comb ! 0) (comb ! 1) (comb ! 2) (comb ! 3)] else []))"
proof -
  let ?body = "bypass_candidate env"
  obtain cs where cs: "candidates (pins_scope self) JTAG_PINS_BYPASS_COUNT = Inr cs"
    and tuples: "\<forall>t\<in>set cs. length t = JTAG_PINS_BYPASS_COUNT \<and> distinct t \<and>
        set t \<subseteq> set (pins_scope self)"
    by (rule candidates_total [of JTAG_PINS_BYPASS_COUNT "pins_scope self"])
      (simp add: JTAG_PINS_BYPASS_COUNT_def)
  have acc: "length t = 4 \<and> (\<forall>p\<in>set t. accepts env p OUT_PP \<and> accepts env p IN)"
    if "t \<in> set cs" for t
    using that tuples assms by (auto simp: JTAG_PINS_BYPASS_COUNT_def)
  have ok: "\<forall>c\<in>set cs. \<forall>s. fst (?body c s) = Inr ()"
    using acc by (simp add: bypass_candidate_ok)
  have all: "fst (for_each cs ?body s) = Inr ()" "map fst (evaluations ?body cs s) = cs"
    using for_each_all_ok [OF ok, of s] by simp_all
  let ?s' = "last (s # map (\<lambda>(comb, s0, s1). s1) (evaluations ?body cs s))"
  have run: "bypass_search env self s = (Inr (), ?s')"
    using all(1) for_each_final_state [of cs ?body s]
    by (simp add: bypass_search_unfold [OF cs] prod_eq_iff)
  have each: "bypass_candidate env comb s0 = (Inr (), s1) \<and>
        new_events s0 s1 =
          [Configure (comb ! 0) OUT_PP, Configure (comb ! 1) OUT_PP,
           Configure (comb ! 2) OUT_PP, Configure (comb ! 3) IN] @
          script_trace (comb ! 2) (comb ! 3)
            (bypass_script (comb ! 0) (comb ! 1) JTAG_BYPASS_PATTERN)
            (samples (new_events s0 s1)) \<and>
        length (samples (new_events s0 s1)) = 94 \<and>
        log s1 = log s0 @
          (if map bit_char (take 44 (drop 48 (samples (new_events s0 s1)))) =
              JTAG_BYPASS_PATTERN
           then [BypassInfo (comb ! 0) (comb ! 1) (comb ! 2) (comb ! 3)] else [])"
    if ev: "(comb, s0, s1) \<in> set (evaluations ?body cs s)" for comb s0 s1
  proof -
    from evaluations_member [OF ev] have m: "comb \<in> set cs" and s1: "s1 = snd (?body comb s0)"
      by simp_all
    have c: "comb = [comb ! 0, comb ! 1, comb ! 2, comb ! 3]"
      using acc [OF m] by (intro list_of_length_4) simp
    have "accepts env (comb ! 0) OUT_PP" "accepts env (comb ! 1) OUT_PP"
      "accepts env (comb ! 2) OUT_PP" "accepts env (comb ! 3) IN"
      using acc [OF m] by simp_all
    then obtain t1 where t1:
      "bypass_candidate env [comb ! 0, comb ! 1, comb ! 2, comb ! 3] s0 = (Inr (), t1)"
      "new_events s0 t1 =
         [Configure (comb ! 0) OUT_PP, Configure (comb ! 1) OUT_PP,
          Configure (comb ! 2) OUT_PP, Configure (comb ! 3) IN] @
         script_trace (comb ! 2) (comb ! 3)
           (bypass_script (comb ! 0) (comb ! 1) JTAG_BYPASS_PATTERN)
           (samples (new_events s0 t1))"
      "length (samples (new_events s0 t1)) = 94"
      "log t1 = log s0 @
         (if map bit_char (take 44 (drop 48 (samples (new_events s0 t1)))) =
             JTAG_BYPASS_PATTERN
          then [BypassInfo (comb ! 0) (comb ! 1) (comb ! 2) (comb ! 3)] else [])"
      by (rule bypass_candidate_facts [of env _ _ _ _ s0])
    have "t1 = s1" using t1(1) s1 c by simp
    then show ?thesis using t1 c by simp
  qed
  show ?thesis
    by (intro exI [of _ cs] exI [of _ ?s'] conjI cs run all(2) refl) (use each in blast)
qed

theorem bypass_search_reports_iff_match_witness:
  "list_all (\<lambda>p. accepts quiet_board p OUT_PP \<and> accepts quiet_board p IN)
     (pins_scope \<lparr>name = ''scan'', pins_scope = [1, 2, 3, 4::nat]\<rparr>) \<and>
   (\<exists>cs s'.
      candidates [1, 2, 3, 4::nat] JTAG_PINS_BYPASS_COUNT = Inr cs \<and>
      bypass_search quiet_board \<lparr>name = ''scan'', pins_scope = [1, 2, 3, 4]\<rparr> fresh_module =
        (Inr (), s') \<and>
      map fst (evaluations (bypass_candidate quiet_board) cs fresh_module) = cs \<and>
      (\<forall>(comb, s0, s1) \<in> set (evaluations (bypass_candidate quiet_board) cs fresh_module).
         log s1 = log s0 @
           (if map bit_char (take 44 (drop 48 (samples (new_events s0 s1)))) =
               JTAG_BYPASS_PATTERN
            then [BypassInfo (comb ! 0) (comb ! 1) (comb ! 2) (comb ! 3)] else [])))"
proof -
  let ?self = "\<lparr>name = ''scan'', pins_scope = [1, 2, 3, 4::nat]\<rparr>"
  have h: "\<forall>p\<in>set (pins_scope ?self). accepts quiet_board p OUT_PP \<and> accepts quiet_board p IN"
    by (simp add: quiet_board_def)
  from bypass_search_reports_iff_match [OF h, of fresh_module] obtain cs s' where
    "candidates (pins_scope ?self) JTAG_PINS_BYPASS_COUNT = Inr cs"
    "bypass_search quiet_board ?self fresh_module = (Inr (), s')"
    "map fst (evaluations (bypass_candidate quiet_board) cs fresh_module) = cs"
    "\<forall>(comb, s0, s1) \<in> set (evaluations (bypass_candidate quiet_board) cs fresh_module).
       log s1 = log s0 @
         (if map bit_char (take 44 (drop 48 (samples (new_events s0 s1)))) =
             JTAG_BYPASS_PATTERN
          then [BypassInfo (comb ! 0) (comb ! 1) (comb ! 2) (comb ! 3)] else [])"
    by fast
  then show ?thesis using h by (intro conjI exI [of _ cs] exI [of _ s']) (simp_all add: list_all_iff)
qed

text \<open>
  C3. On an adapter that accepts the pins of the pool, \<open>idcode_search\<close> evaluates every
  candidate of its enumeration, in order, and returns normally. The evaluation of a
  candidate clocks the 44 cycles of the IDCODE script; the capture is the 32 cycles after
  the first 9. The response is the 32 levels sampled during the capture, written as digits
  and reversed, so that the level sampled last comes first. The evaluation logs the
  candidate with that response exactly when the response is neither 32 ones nor 32 zeros,
  and logs nothing otherwise.
\<close>

theorem idcode_search_reports_reversed_response:
  assumes "\<forall>p\<in>set (pins_scope self). accepts env p OUT_PP \<and> accepts env p IN"
  shows "\<exists>cs s'.
     candidates (pins_scope self) JTAG_PINS_IDCODE_COUNT = Inr cs \<and>
     idcode_search env self s = (Inr (), s') \<and>
     map fst (evaluations (idcode_candidate env) cs s) = cs \<and>
     s' = last (s # map (\<lambda>(comb, s0, s1). s1) (evaluations (idcode_candidate env) cs s)) \<and>
     (\<forall>(comb, s0, s1) \<in> set (evaluations (idcode_candidate env) cs s).
        idcode_candidate env comb s0 = (Inr (), s1) \<and>
        new_events s0 s1 =
          [Configure (comb ! 0) OUT_PP, Configure (comb ! 1) OUT_PP, Configure (comb ! 2) IN] @
          script_trace (comb ! 1) (comb ! 2) (idcode_script (comb ! 0) (TDI s0))
            (samples (new_events s0 s1)) \<and>
        length (samples (new_events s0 s1)) = 44 \<and>
        log s1 = log s0 @
          (let response = rev (map bit_char (take 32 (drop 9 (samples (new_events s0 s1)))))
           in if response \<noteq> replicate 32 CHR ''1'' \<and> response \<noteq> replicate 32 CHR ''0''
              then [IdcodeInfo (comb ! 0) (comb ! 1) (comb ! 2) response] else []))"
proof -
  let ?body = "idcode_candidate env"
  obtain cs where cs: "candidates (pins_scope self) JTAG_PINS_IDCODE_COUNT = Inr cs"
    and tuples: "\<forall>t\<in>set cs. length t = JTAG_PINS_IDCODE_COUNT \<and> distinct t \<and>
        set t \<subseteq> set (pins_scope self)"
    by (rule candidates_total [of JTAG_PINS_IDCODE_COUNT "pins_scope self"])
      (simp add: JTAG_PINS_IDCODE_COUNT_def)
  have acc: "length t = 3 \<and> (\<forall>p\<in>set t. accepts env p OUT_PP \<and> accepts env p IN)"
    if "t \<in> set cs" for t
    using that tuples assms by (auto simp: JTAG_PINS_IDCODE_COUNT_def)
  have ok: "\<forall>c\<in>set cs. \<forall>s. fst (?body c s) = Inr ()"
    using acc by (simp add: idcode_candidate_ok)
  have all: "fst (for_each cs ?body s) = Inr ()" "map fst (evaluations ?body cs s) = cs"
    using for_each_all_ok [OF ok, of s] by simp_all
  let ?s' = "last (s # map (\<lambda>(comb, s0, s1). s1) (evaluations ?body cs s))"
  have run: "idcode_search env self s = (Inr (), ?s')"
    using all(1) for_each_final_state [of cs ?body s]
    by (simp add: idcode_search_unfold [OF cs] prod_eq_iff)
  have each: "idcode_candidate env comb s0 = (Inr (), s1) \<and>
        new_events s0 s1 =
          [Configure (comb ! 0) OUT_PP, Configure (comb ! 1) OUT_PP, Configure (comb ! 2) IN] @
          script_trace (comb ! 1) (comb ! 2) (idcode_script (comb ! 0) (TDI s0))
            (samples (new_events s0 s1)) \<and>
        length (samples (new_events s0 s1)) = 44 \<and>
        log s1 = log s0 @
          (let response = rev (map bit_char (take 32 (drop 9 (samples (new_events s0 s1)))))
           in if response \<noteq> replicate 32 CHR ''1'' \<and> response \<noteq> replicate 32 CHR ''0''
              then [IdcodeInfo (comb ! 0) (comb ! 1) (comb ! 2) response] else [])"
    if ev: "(comb, s0, s1) \<in> set (evaluations ?body cs s)" for comb s0 s1
  proof -
    from evaluations_member [OF ev] have m: "comb \<in> set cs" and s1: "s1 = snd (?body comb s0)"
      by simp_all
    have c: "comb = [comb ! 0, comb ! 1, comb ! 2]"
      using acc [OF m] by (intro list_of_length_3) simp
    have "accepts env (comb ! 0) OUT_PP" "accepts env (comb ! 1) OUT_PP"
      "accepts env (comb ! 2) IN"
      using acc [OF m] by simp_all
    then obtain t1 where t1:
      "idcode_candidate env [comb ! 0, comb ! 1, comb ! 2] s0 = (Inr (), t1)"
      "new_events s0 t1 =
         [Configure (comb ! 0) OUT_PP, Configure (comb ! 1) OUT_PP, Configure (comb ! 2) IN] @
         script_trace (comb ! 1) (comb ! 2) (idcode_script (comb ! 0) (TDI s0))
           (samples (new_events s0 t1))"
      "length (samples (new_events s0 t1)) = 44"
      "log t1 = log s0 @
         (let response = rev (map bit_char (take 32 (drop 9 (samples (new_events s0 t1)))))
          in if response \<noteq> replicate 32 CHR ''1'' \<and> response \<noteq> replicate 32 CHR ''0''
             then [IdcodeInfo (comb ! 0) (comb ! 1) (comb ! 2) response] else [])"
      by (rule idcode_candidate_facts [of env _ _ _ s0])
    have "t1 = s1" using t1(1) s1 c by simp
    then show ?thesis using t1 c by simp
  qed
  show ?thesis
    by (intro exI [of _ cs] exI [of _ ?s'] conjI cs run all(2) refl) (use each in blast)
qed

theorem idcode_search_reports_reversed_response_witness:
  "list_all (\<lambda>p. accepts quiet_board p OUT_PP \<and> accepts quiet_board p IN)
     (pins_scope \<lparr>name = ''scan'', pins_scope = [1, 2, 3::nat]\<rparr>) \<and>
   (\<exists>cs s'.
      candidates [1, 2, 3::nat] JTAG_PINS_IDCODE_COUNT = Inr cs \<and>
      idcode_search quiet_board \<lparr>name = ''scan'', pins_scope = [1, 2, 3]\<rparr> fresh_module =
        (Inr (), s') \<and>
      map fst (evaluations (idcode_candidate quiet_board) cs fresh_module) = cs \<and>
      (\<forall>(comb, s0, s1) \<in> set (evaluations (idcode_candidate quiet_board) cs fresh_module).
         log s1 = log s0 @
           (let response = rev (map bit_char (take 32 (drop 9 (samples (new_events s0 s1)))))
            in if response \<noteq> replicate 32 CHR ''1'' \<and> response \<noteq> replicate 32 CHR ''0''
               then [IdcodeInfo (comb ! 0) (comb ! 1) (comb ! 2) response] else [])))"
proof -
  let ?self = "\<lparr>name = ''scan'', pins_scope = [1, 2, 3::nat]\<rparr>"
  have h: "\<forall>p\<in>set (pins_scope ?self). accepts quiet_board p OUT_PP \<and> accepts quiet_board p IN"
    by (simp add: quiet_board_def)
  from idcode_search_reports_reversed_response [OF h, of fresh_module] obtain cs s' where
    "candidates (pins_scope ?self) JTAG_PINS_IDCODE_COUNT = Inr cs"
    "idcode_search quiet_board ?self fresh_module = (Inr (), s')"
    "map fst (evaluations (idcode_candidate quiet_board) cs fresh_module) = cs"
    "\<forall>(comb, s0, s1) \<in> set (evaluations (idcode_candidate quiet_board) cs fresh_module).
       log s1 = log s0 @
         (let response = rev (map bit_char (take 32 (drop 9 (samples (new_events s0 s1)))))
          in if response \<noteq> replicate 32 CHR ''1'' \<and> response \<noteq> replicate 32 CHR ''0''
             then [IdcodeInfo (comb ! 0) (comb ! 1) (comb ! 2) response] else [])"
    by fast
  then show ?thesis using h by (intro conjI exI [of _ cs] exI [of _ s']) (simp_all add: list_all_iff)
qed

section \<open>The claims about errors\<close>

lemma candidates_small_pool:
  assumes "1 \<le> k" and "length pool < k"
  shows "candidates pool k = Inr []"
proof -
  obtain cs where cs: "candidates pool k = Inr cs"
    and tuples: "\<forall>t\<in>set cs. length t = k \<and> distinct t \<and> set t \<subseteq> set pool"
    using assms(1) by (rule candidates_total)
  have "cs = []"
  proof (rule ccontr)
    assume "cs \<noteq> []"
    then obtain t where t: "t \<in> set cs"
      by (cases cs) auto
    then have "length t = k" "distinct t" "set t \<subseteq> set pool"
      using tuples by simp_all
    then have "k = card (set t)"
      by (simp add: distinct_card)
    also have "\<dots> \<le> card (set pool)"
      using \<open>set t \<subseteq> set pool\<close> by (simp add: card_mono)
    also have "\<dots> \<le> length pool"
      by (rule card_length)
    finally show False using assms(2) by simp
  qed
  then show ?thesis using cs by simp
qed

text \<open>
  C6, as the code has it. The claim that a pool smaller than the arity makes the scan
  report a configuration error fails: the scan over the three pins 1, 2, 3 returns
  normally from \<open>bypass_search\<close> and leaves the module state, its log included, as it
  was.
\<close>

theorem small_pool_reports_no_error:
  "bypass_search quiet_board \<lparr>name = ''scan'', pins_scope = [1, 2, 3]\<rparr> fresh_module =
     (Inr (), fresh_module)"
proof -
  have "candidates [1, 2, 3::nat] JTAG_PINS_BYPASS_COUNT = Inr []"
    by (rule candidates_small_pool) (simp_all add: JTAG_PINS_BYPASS_COUNT_def)
  then show ?thesis
    by (simp add: bypass_search_def return_io_def)
qed

text \<open>
  C6, amended. For every pool with fewer pins than the arity of the scan (4 for
  \<open>bypass_search\<close>, 3 for \<open>idcode_search\<close>) the scan returns normally and raises
  nothing; it binds and tests no candidate, emits no event and logs nothing: the module
  state after the scan is the state before it.
\<close>

theorem small_pool_scans_nothing:
  "(length (pins_scope self) < JTAG_PINS_BYPASS_COUNT \<longrightarrow>
      bypass_search env self s = (Inr (), s)) \<and>
   (length (pins_scope self) < JTAG_PINS_IDCODE_COUNT \<longrightarrow>
      idcode_search env self s = (Inr (), s))"
proof (intro conjI impI)
  assume "length (pins_scope self) < JTAG_PINS_BYPASS_COUNT"
  then have "candidates (pins_scope self) JTAG_PINS_BYPASS_COUNT = Inr []"
    by (intro candidates_small_pool) (simp_all add: JTAG_PINS_BYPASS_COUNT_def)
  then show "bypass_search env self s = (Inr (), s)"
    by (simp add: bypass_search_def return_io_def)
next
  assume "length (pins_scope self) < JTAG_PINS_IDCODE_COUNT"
  then have "candidates (pins_scope self) JTAG_PINS_IDCODE_COUNT = Inr []"
    by (intro candidates_small_pool) (simp_all add: JTAG_PINS_IDCODE_COUNT_def)
  then show "idcode_search env self s = (Inr (), s)"
    by (simp add: idcode_search_def return_io_def)
qed

theorem small_pool_scans_nothing_witness:
  "length (pins_scope \<lparr>name = ''scan'', pins_scope = [1, 2::nat]\<rparr>) < JTAG_PINS_BYPASS_COUNT \<and>
   length (pins_scope \<lparr>name = ''scan'', pins_scope = [1, 2::nat]\<rparr>) < JTAG_PINS_IDCODE_COUNT \<and>
   bypass_search quiet_board \<lparr>name = ''scan'', pins_scope = [1, 2]\<rparr> fresh_module =
     (Inr (), fresh_module) \<and>
   idcode_search quiet_board \<lparr>name = ''scan'', pins_scope = [1, 2]\<rparr> fresh_module =
     (Inr (), fresh_module)"
  using small_pool_scans_nothing
    [of "\<lparr>name = ''scan'', pins_scope = [1, 2::nat]\<rparr>" quiet_board fresh_module]
  by (simp add: JTAG_PINS_BYPASS_COUNT_def JTAG_PINS_IDCODE_COUNT_def)

text \<open>
  C7, as the code has it. The claim that the test pattern is 46 bits long fails.
\<close>

theorem bypass_pattern_not_46_bits:
  "length JTAG_BYPASS_PATTERN \<noteq> 46"
  by (simp add: JTAG_BYPASS_PATTERN_def)

lemma bypass_script_dr_shift:
  "take 44 (drop 48 (bypass_script m i JTAG_BYPASS_PATTERN)) =
     tms_tdi_script m i (replicate 43 CHR ''0'' @ ''1'') JTAG_BYPASS_PATTERN"
proof -
  have "bypass_script m i JTAG_BYPASS_PATTERN =
      bypass_prefix m i @
      tms_tdi_script m i (replicate 43 CHR ''0'' @ ''1'') JTAG_BYPASS_PATTERN @
      tms_script m ''10''"
    by (simp add: bypass_script_def bypass_prefix_def pattern_length)
  moreover have "length (bypass_prefix m i) = 48"
    by (simp add: bypass_prefix_def)
  moreover have
    "length (tms_tdi_script m i (replicate 43 CHR ''0'' @ ''1'') JTAG_BYPASS_PATTERN) = 44"
    by (simp add: pattern_length)
  ultimately show ?thesis by simp
qed

text \<open>
  C7, amended. The fixed test pattern is 44 bits long, with the bit content
  01101110011110001111110110111001111000111111. Every BYPASS test of a candidate whose
  pins the adapter accepts clocks the BYPASS script of that pattern, and the data register
  shift of the script, its 44 cycles after the first 48, drives the digits of the pattern
  on the TDI line, one per clock, with TMS low but on the last clock.
\<close>

theorem bypass_pattern_is_44_bits:
  "length JTAG_BYPASS_PATTERN = 44 \<and>
   JTAG_BYPASS_PATTERN = ''01101110011110001111110110111001111000111111'' \<and>
   take 44 (drop 48 (bypass_script a b JTAG_BYPASS_PATTERN)) =
     map (\<lambda>(k, c). [(a, k = 43), (b, c = CHR ''1'')]) (zip [0..<44] JTAG_BYPASS_PATTERN) \<and>
   (accepts env a OUT_PP \<and> accepts env b OUT_PP \<and> accepts env c OUT_PP \<and> accepts env d IN \<longrightarrow>
      (\<exists>s1. bypass_candidate env [a, b, c, d] s0 = (Inr (), s1) \<and>
         new_events s0 s1 =
           [Configure a OUT_PP, Configure b OUT_PP, Configure c OUT_PP, Configure d IN] @
           script_trace c d (bypass_script a b JTAG_BYPASS_PATTERN)
             (samples (new_events s0 s1))))"
proof (intro conjI impI)
  show "length JTAG_BYPASS_PATTERN = 44"
    by (rule pattern_length)
  show "JTAG_BYPASS_PATTERN = ''01101110011110001111110110111001111000111111''"
    by (rule JTAG_BYPASS_PATTERN_def)
  have "tms_tdi_script a b (replicate 43 CHR ''0'' @ ''1'') JTAG_BYPASS_PATTERN =
      map (\<lambda>(k, c). [(a, k = 43), (b, c = CHR ''1'')]) (zip [0..<44] JTAG_BYPASS_PATTERN)"
    by (rule nth_equalityI)
      (auto simp: tms_tdi_script_def pattern_length nth_append nth_Cons')
  then show "take 44 (drop 48 (bypass_script a b JTAG_BYPASS_PATTERN)) =
     map (\<lambda>(k, c). [(a, k = 43), (b, c = CHR ''1'')]) (zip [0..<44] JTAG_BYPASS_PATTERN)"
    by (simp only: bypass_script_dr_shift)
next
  assume "accepts env a OUT_PP \<and> accepts env b OUT_PP \<and> accepts env c OUT_PP \<and> accepts env d IN"
  then have "accepts env a OUT_PP" "accepts env b OUT_PP" "accepts env c OUT_PP"
    "accepts env d IN"
    by simp_all
  then obtain s1 where "bypass_candidate env [a, b, c, d] s0 = (Inr (), s1)"
    "new_events s0 s1 =
       [Configure a OUT_PP, Configure b OUT_PP, Configure c OUT_PP, Configure d IN] @
       script_trace c d (bypass_script a b JTAG_BYPASS_PATTERN) (samples (new_events s0 s1))"
    by (rule bypass_candidate_facts [of env a b c d s0])
  then show "\<exists>s1. bypass_candidate env [a, b, c, d] s0 = (Inr (), s1) \<and>
         new_events s0 s1 =
           [Configure a OUT_PP, Configure b OUT_PP, Configure c OUT_PP, Configure d IN] @
           script_trace c d (bypass_script a b JTAG_BYPASS_PATTERN)
             (samples (new_events s0 s1))"
    by blast
qed

theorem bypass_pattern_is_44_bits_witness:
  "accepts quiet_board 1 OUT_PP \<and> accepts quiet_board 2 OUT_PP \<and>
   accepts quiet_board 3 OUT_PP \<and> accepts quiet_board 4 IN \<and>
   (\<exists>s1. bypass_candidate quiet_board [1, 2, 3, 4] fresh_module = (Inr (), s1) \<and>
      new_events fresh_module s1 =
        [Configure 1 OUT_PP, Configure 2 OUT_PP, Configure 3 OUT_PP, Configure 4 IN] @
        script_trace 3 4 (bypass_script 1 2 JTAG_BYPASS_PATTERN)
          (samples (new_events fresh_module s1)))"
proof -
  have h: "accepts quiet_board 1 OUT_PP \<and> accepts quiet_board 2 OUT_PP \<and>
      accepts quiet_board 3 OUT_PP \<and> accepts quiet_board 4 IN"
    by (simp add: quiet_board_def)
  then show ?thesis
    using bypass_pattern_is_44_bits [of 1 2 quiet_board 3 4 fresh_module] by blast
qed

text \<open>
  C9, as the code has it. The claim that a refused pin skips one candidate only fails. On
  the board whose pin 4 can be an input only, \<open>idcode_search\<close> over the pins 1, 2, 3, 4
  evaluates the first five of its 24 candidates; the fifth wants pin 4 as the clock, the
  constructor refuses, and the scan ends there with the \<open>ValueError\<close>: none of the 19
  candidates after it is evaluated, not even those that leave pin 4 alone.
\<close>

theorem refused_pin_ends_idcode_search:
  "fst (idcode_search reserved_pin_board \<lparr>name = ''scan'', pins_scope = [1, 2, 3, 4]\<rparr>
         fresh_module) = Inl ValueError \<and>
   map fst (evaluations (idcode_candidate reserved_pin_board)
     [[1, 2, 3], [1, 2, 4], [1, 3, 2], [1, 3, 4], [1, 4, 2], [1, 4, 3],
      [2, 1, 3], [2, 1, 4], [2, 3, 1], [2, 3, 4], [2, 4, 1], [2, 4, 3],
      [3, 1, 2], [3, 1, 4], [3, 2, 1], [3, 2, 4], [3, 4, 1], [3, 4, 2],
      [4, 1, 2], [4, 1, 3], [4, 2, 1], [4, 2, 3], [4, 3, 1], [4, 3, 2]] fresh_module) =
     [[1, 2, 3], [1, 2, 4], [1, 3, 2], [1, 3, 4], [1, 4, 2]]"
proof -
  let ?pre = "[[1, 2, 3], [1, 2, 4], [1, 3, 2], [1, 3, 4::nat]]"
  let ?comb = "[1, 4, 2::nat]"
  let ?post = "[[1, 4, 3],
      [2, 1, 3], [2, 1, 4], [2, 3, 1], [2, 3, 4], [2, 4, 1], [2, 4, 3],
      [3, 1, 2], [3, 1, 4], [3, 2, 1], [3, 2, 4], [3, 4, 1], [3, 4, 2],
      [4, 1, 2], [4, 1, 3], [4, 2, 1], [4, 2, 3], [4, 3, 1], [4, 3, 2::nat]]"
  let ?body = "idcode_candidate reserved_pin_board"
  have cs: "candidates [1, 2, 3, 4::nat] JTAG_PINS_IDCODE_COUNT = Inr (?pre @ ?comb # ?post)"
    using candidates_1234_arity_3 by simp
  have pre: "\<forall>t\<in>set ?pre. accepts reserved_pin_board (t ! 0) OUT_PP \<and>
      accepts reserved_pin_board (t ! 1) OUT_PP \<and> accepts reserved_pin_board (t ! 2) IN"
    by (simp add: reserved_pin_board_def)
  have bad: "\<not> (accepts reserved_pin_board (?comb ! 0) OUT_PP \<and>
      accepts reserved_pin_board (?comb ! 1) OUT_PP \<and> accepts reserved_pin_board (?comb ! 2) IN)"
    by (simp add: reserved_pin_board_def)
  from idcode_scan_abort [OF cs pre bad, of fresh_module] obtain s0 s1 where
    run: "for_each (?pre @ ?comb # ?post) ?body fresh_module = (Inl ValueError, s1)"
    and ev: "evaluations ?body (?pre @ ?comb # ?post) fresh_module =
       evaluations ?body ?pre fresh_module @ [(?comb, s0, s1)]"
    and m: "map fst (evaluations ?body ?pre fresh_module) = ?pre"
    by (elim exE conjE) (rule that, assumption+)
  have u: "idcode_search reserved_pin_board \<lparr>name = ''scan'', pins_scope = [1, 2, 3, 4::nat]\<rparr>
      fresh_module = for_each (?pre @ ?comb # ?post) ?body fresh_module"
    by (rule idcode_search_unfold) (use candidates_1234_arity_3 in simp)
  have "fst (idcode_search reserved_pin_board \<lparr>name = ''scan'', pins_scope = [1, 2, 3, 4::nat]\<rparr>
      fresh_module) = Inl ValueError"
    by (simp only: u run fst_conv)
  moreover have "map fst (evaluations ?body (?pre @ ?comb # ?post) fresh_module) =
      ?pre @ [?comb]"
    by (simp only: ev map_append m) simp
  moreover have "?pre @ ?comb # ?post =
     [[1, 2, 3], [1, 2, 4], [1, 3, 2], [1, 3, 4], [1, 4, 2], [1, 4, 3],
      [2, 1, 3], [2, 1, 4], [2, 3, 1], [2, 3, 4], [2, 4, 1], [2, 4, 3],
      [3, 1, 2], [3, 1, 4], [3, 2, 1], [3, 2, 4], [3, 4, 1], [3, 4, 2],
      [4, 1, 2], [4, 1, 3], [4, 2, 1], [4, 2, 3], [4, 3, 1], [4, 3, 2]]"
    "?pre @ [?comb] = [[1, 2, 3], [1, 2, 4], [1, 3, 2], [1, 3, 4], [1, 4, 2]]"
    by simp_all
  ultimately show ?thesis by (simp only:)
qed

text \<open>
  C9, amended. When the adapter refuses to configure a pin of a candidate for its
  direction, the constructor's exception leaves the search: the scan ends at that
  candidate with the \<open>ValueError\<close>. The candidates before it, whose pins were accepted,
  have been evaluated in order; the evaluation of the refused candidate emits nothing but
  the configuration of the pins accepted before the refused one, drives and samples no
  line and logs nothing; no candidate after it is evaluated. This holds for
  \<open>idcode_search\<close> and for \<open>bypass_search\<close>.
\<close>

theorem refused_pin_aborts_scan:
  "(candidates (pins_scope self) JTAG_PINS_IDCODE_COUNT = Inr (pre @ comb # post) \<and>
    (\<forall>t\<in>set pre. accepts env (t ! 0) OUT_PP \<and> accepts env (t ! 1) OUT_PP \<and>
       accepts env (t ! 2) IN) \<and>
    \<not> (accepts env (comb ! 0) OUT_PP \<and> accepts env (comb ! 1) OUT_PP \<and>
       accepts env (comb ! 2) IN) \<longrightarrow>
    (\<exists>s0 s1. idcode_search env self s = (Inl ValueError, s1) \<and>
       evaluations (idcode_candidate env) (pre @ comb # post) s =
         evaluations (idcode_candidate env) pre s @ [(comb, s0, s1)] \<and>
       map fst (evaluations (idcode_candidate env) pre s) = pre \<and>
       log s1 = log s0 \<and> list_all is_configure (new_events s0 s1))) \<and>
   (candidates (pins_scope self) JTAG_PINS_BYPASS_COUNT = Inr (pre' @ comb' # post') \<and>
    (\<forall>t\<in>set pre'. accepts env (t ! 0) OUT_PP \<and> accepts env (t ! 1) OUT_PP \<and>
       accepts env (t ! 2) OUT_PP \<and> accepts env (t ! 3) IN) \<and>
    \<not> (accepts env (comb' ! 0) OUT_PP \<and> accepts env (comb' ! 1) OUT_PP \<and>
       accepts env (comb' ! 2) OUT_PP \<and> accepts env (comb' ! 3) IN) \<longrightarrow>
    (\<exists>s0 s1. bypass_search env self s = (Inl ValueError, s1) \<and>
       evaluations (bypass_candidate env) (pre' @ comb' # post') s =
         evaluations (bypass_candidate env) pre' s @ [(comb', s0, s1)] \<and>
       map fst (evaluations (bypass_candidate env) pre' s) = pre' \<and>
       log s1 = log s0 \<and> list_all is_configure (new_events s0 s1)))"
proof (intro conjI impI)
  assume h: "candidates (pins_scope self) JTAG_PINS_IDCODE_COUNT = Inr (pre @ comb # post) \<and>
    (\<forall>t\<in>set pre. accepts env (t ! 0) OUT_PP \<and> accepts env (t ! 1) OUT_PP \<and>
       accepts env (t ! 2) IN) \<and>
    \<not> (accepts env (comb ! 0) OUT_PP \<and> accepts env (comb ! 1) OUT_PP \<and>
       accepts env (comb ! 2) IN)"
  then have cs: "candidates (pins_scope self) JTAG_PINS_IDCODE_COUNT = Inr (pre @ comb # post)"
    by simp
  from h idcode_scan_abort [OF cs, of env s]
  show "\<exists>s0 s1. idcode_search env self s = (Inl ValueError, s1) \<and>
       evaluations (idcode_candidate env) (pre @ comb # post) s =
         evaluations (idcode_candidate env) pre s @ [(comb, s0, s1)] \<and>
       map fst (evaluations (idcode_candidate env) pre s) = pre \<and>
       log s1 = log s0 \<and> list_all is_configure (new_events s0 s1)"
    by (simp add: idcode_search_unfold [OF cs])
next
  assume h: "candidates (pins_scope self) JTAG_PINS_BYPASS_COUNT = Inr (pre' @ comb' # post') \<and>
    (\<forall>t\<in>set pre'. accepts env (t ! 0) OUT_PP \<and> accepts env (t ! 1) OUT_PP \<and>
       accepts env (t ! 2) OUT_PP \<and> accepts env (t ! 3) IN) \<and>
    \<not> (accepts env (comb' ! 0) OUT_PP \<and> accepts env (comb' ! 1) OUT_PP \<and>
       accepts env (comb' ! 2) OUT_PP \<and> accepts env (comb' ! 3) IN)"
  then have cs: "candidates (pins_scope self) JTAG_PINS_BYPASS_COUNT = Inr (pre' @ comb' # post')"
    by simp
  from h bypass_scan_abort [OF cs, of env s]
  show "\<exists>s0 s1. bypass_search env self s = (Inl ValueError, s1) \<and>
       evaluations (bypass_candidate env) (pre' @ comb' # post') s =
         evaluations (bypass_candidate env) pre' s @ [(comb', s0, s1)] \<and>
       map fst (evaluations (bypass_candidate env) pre' s) = pre' \<and>
       log s1 = log s0 \<and> list_all is_configure (new_events s0 s1)"
    by (simp add: bypass_search_unfold [OF cs])
qed

theorem refused_pin_aborts_scan_witness:
  "candidates (pins_scope \<lparr>name = ''scan'', pins_scope = [1, 2, 3, 4::nat]\<rparr>) JTAG_PINS_IDCODE_COUNT =
     Inr ([[1, 2, 3], [1, 2, 4], [1, 3, 2], [1, 3, 4::nat]] @ [1, 4, 2] #
      [[1, 4, 3], [2, 1, 3], [2, 1, 4], [2, 3, 1], [2, 3, 4], [2, 4, 1], [2, 4, 3],
      [3, 1, 2], [3, 1, 4], [3, 2, 1], [3, 2, 4], [3, 4, 1], [3, 4, 2], [4, 1, 2],
      [4, 1, 3], [4, 2, 1], [4, 2, 3], [4, 3, 1], [4, 3, 2::nat]]) \<and>
   list_all (\<lambda>t. accepts reserved_pin_board (t ! 0) OUT_PP \<and> accepts reserved_pin_board (t ! 1) OUT_PP \<and>
       accepts reserved_pin_board (t ! 2) IN)
     [[1, 2, 3], [1, 2, 4], [1, 3, 2], [1, 3, 4::nat]] \<and>
   \<not> (accepts reserved_pin_board ([1, 4, 2] ! 0) OUT_PP \<and>
      accepts reserved_pin_board ([1, 4, 2] ! 1) OUT_PP \<and>
      accepts reserved_pin_board ([1, 4, 2] ! 2) IN) \<and>
   (\<exists>s0 s1. idcode_search reserved_pin_board \<lparr>name = ''scan'', pins_scope = [1, 2, 3, 4::nat]\<rparr> fresh_module =
        (Inl ValueError, s1) \<and>
      log s1 = log s0 \<and> list_all is_configure (new_events s0 s1)) \<and>
   candidates (pins_scope \<lparr>name = ''scan'', pins_scope = [1, 2, 3, 4::nat]\<rparr>) JTAG_PINS_BYPASS_COUNT =
     Inr ([[1, 2, 3, 4::nat]] @ [1, 2, 4, 3] #
      [[1, 3, 2, 4], [1, 3, 4, 2], [1, 4, 2, 3], [1, 4, 3, 2], [2, 1, 3, 4],
      [2, 1, 4, 3], [2, 3, 1, 4], [2, 3, 4, 1], [2, 4, 1, 3], [2, 4, 3, 1],
      [3, 1, 2, 4], [3, 1, 4, 2], [3, 2, 1, 4], [3, 2, 4, 1], [3, 4, 1, 2],
      [3, 4, 2, 1], [4, 1, 2, 3], [4, 1, 3, 2], [4, 2, 1, 3], [4, 2, 3, 1],
      [4, 3, 1, 2], [4, 3, 2, 1::nat]]) \<and>
   list_all (\<lambda>t. accepts reserved_pin_board (t ! 0) OUT_PP \<and> accepts reserved_pin_board (t ! 1) OUT_PP \<and>
       accepts reserved_pin_board (t ! 2) OUT_PP \<and> accepts reserved_pin_board (t ! 3) IN)
     [[1, 2, 3, 4::nat]] \<and>
   \<not> (accepts reserved_pin_board ([1, 2, 4, 3] ! 0) OUT_PP \<and>
      accepts reserved_pin_board ([1, 2, 4, 3] ! 1) OUT_PP \<and>
      accepts reserved_pin_board ([1, 2, 4, 3] ! 2) OUT_PP \<and>
      accepts reserved_pin_board ([1, 2, 4, 3] ! 3) IN) \<and>
   (\<exists>s0 s1. bypass_search reserved_pin_board \<lparr>name = ''scan'', pins_scope = [1, 2, 3, 4::nat]\<rparr> fresh_module =
        (Inl ValueError, s1) \<and>
      log s1 = log s0 \<and> list_all is_configure (new_events s0 s1))"
proof -
  let ?self = "\<lparr>name = ''scan'', pins_scope = [1, 2, 3, 4::nat]\<rparr>"
  let ?pre = "[[1, 2, 3], [1, 2, 4], [1, 3, 2], [1, 3, 4::nat]]"
  let ?comb = "[1, 4, 2::nat]"
  let ?post = "[[1, 4, 3], [2, 1, 3], [2, 1, 4], [2, 3, 1], [2, 3, 4], [2, 4, 1], [2, 4, 3],
      [3, 1, 2], [3, 1, 4], [3, 2, 1], [3, 2, 4], [3, 4, 1], [3, 4, 2], [4, 1, 2],
      [4, 1, 3], [4, 2, 1], [4, 2, 3], [4, 3, 1], [4, 3, 2::nat]]"
  let ?pre' = "[[1, 2, 3, 4::nat]]"
  let ?comb' = "[1, 2, 4, 3::nat]"
  let ?post' = "[[1, 3, 2, 4], [1, 3, 4, 2], [1, 4, 2, 3], [1, 4, 3, 2], [2, 1, 3, 4],
      [2, 1, 4, 3], [2, 3, 1, 4], [2, 3, 4, 1], [2, 4, 1, 3], [2, 4, 3, 1],
      [3, 1, 2, 4], [3, 1, 4, 2], [3, 2, 1, 4], [3, 2, 4, 1], [3, 4, 1, 2],
      [3, 4, 2, 1], [4, 1, 2, 3], [4, 1, 3, 2], [4, 2, 1, 3], [4, 2, 3, 1],
      [4, 3, 1, 2], [4, 3, 2, 1::nat]]"
  have c3: "candidates (pins_scope ?self) JTAG_PINS_IDCODE_COUNT = Inr (?pre @ ?comb # ?post)"
    using candidates_1234_arity_3 by simp
  have c4: "candidates (pins_scope ?self) JTAG_PINS_BYPASS_COUNT = Inr (?pre' @ ?comb' # ?post')"
    using candidates_1234_arity_4 by simp
  have p3: "\<forall>t\<in>set ?pre. accepts reserved_pin_board (t ! 0) OUT_PP \<and> accepts reserved_pin_board (t ! 1) OUT_PP \<and>
      accepts reserved_pin_board (t ! 2) IN"
    by (simp add: reserved_pin_board_def)
  have p4: "\<forall>t\<in>set ?pre'. accepts reserved_pin_board (t ! 0) OUT_PP \<and> accepts reserved_pin_board (t ! 1) OUT_PP \<and>
      accepts reserved_pin_board (t ! 2) OUT_PP \<and> accepts reserved_pin_board (t ! 3) IN"
    by (simp add: reserved_pin_board_def)
  have b3: "\<not> (accepts reserved_pin_board (?comb ! 0) OUT_PP \<and> accepts reserved_pin_board (?comb ! 1) OUT_PP \<and>
      accepts reserved_pin_board (?comb ! 2) IN)"
    by (simp add: reserved_pin_board_def)
  have b4: "\<not> (accepts reserved_pin_board (?comb' ! 0) OUT_PP \<and> accepts reserved_pin_board (?comb' ! 1) OUT_PP \<and>
      accepts reserved_pin_board (?comb' ! 2) OUT_PP \<and> accepts reserved_pin_board (?comb' ! 3) IN)"
    by (simp add: reserved_pin_board_def)
  note t = refused_pin_aborts_scan [where self = ?self and pre = ?pre and comb = ?comb
      and post = ?post and env = reserved_pin_board and pre' = ?pre' and comb' = ?comb'
      and post' = ?post' and s = fresh_module]
  have r3: "\<exists>s0 s1. idcode_search reserved_pin_board ?self fresh_module = (Inl ValueError, s1) \<and>
      log s1 = log s0 \<and> list_all is_configure (new_events s0 s1)"
    using t c3 p3 b3 by blast
  have r4: "\<exists>s0 s1. bypass_search reserved_pin_board ?self fresh_module = (Inl ValueError, s1) \<and>
      log s1 = log s0 \<and> list_all is_configure (new_events s0 s1)"
    using t c4 p4 b4 by blast
  have l3: "list_all (\<lambda>t. accepts reserved_pin_board (t ! 0) OUT_PP \<and> accepts reserved_pin_board (t ! 1) OUT_PP \<and>
       accepts reserved_pin_board (t ! 2) IN) ?pre"
    using p3 by (simp only: list_all_iff)
  have l4: "list_all (\<lambda>t. accepts reserved_pin_board (t ! 0) OUT_PP \<and> accepts reserved_pin_board (t ! 1) OUT_PP \<and>
       accepts reserved_pin_board (t ! 2) OUT_PP \<and> accepts reserved_pin_board (t ! 3) IN) ?pre'"
    using p4 by (simp only: list_all_iff)
  show ?thesis
    by (intro conjI c3 l3 b3 r3 c4 l4 b4 r4)
qed

section \<open>The claims about the TDI binding\<close>

text \<open>
  C10. \<open>bypass_search\<close> over a pool of at least four distinct accepted pins returns with
  \<open>TDI\<close> bound to the TDI pin of the last candidate it evaluated. \<open>idcode_search\<close>
  never assigns \<open>TDI\<close>: whatever its outcome, \<open>TDI\<close> is after it what it was before.
  So an \<open>idcode_search\<close> run after such a \<open>bypass_search\<close> clocks, for every
  candidate, the IDCODE script of the bound branch of the generic shift: in the 32 capture
  clocks TMS is low for 31 clocks and high on the 32nd while the zero payload is driven on
  the stale TDI pin. An \<open>idcode_search\<close> started with \<open>TDI\<close> unbound clocks the script
  of the other branch: the payload goes to TMS, which stays low for all 32 clocks.
\<close>

theorem stale_tdi_reaches_idcode_search:
  "(distinct (pins_scope self) \<and> JTAG_PINS_BYPASS_COUNT \<le> length (pins_scope self) \<and>
    (\<forall>p\<in>set (pins_scope self) \<union> set (pins_scope self').
        accepts env p OUT_PP \<and> accepts env p IN) \<longrightarrow>
    (\<exists>cs s1 cs' s2.
       candidates (pins_scope self) JTAG_PINS_BYPASS_COUNT = Inr cs \<and> cs \<noteq> [] \<and>
       bypass_search env self s = (Inr (), s1) \<and> TDI s1 = Some (last cs ! 1) \<and>
       candidates (pins_scope self') JTAG_PINS_IDCODE_COUNT = Inr cs' \<and>
       idcode_search env self' s1 = (Inr (), s2) \<and> TDI s2 = Some (last cs ! 1) \<and>
       map fst (evaluations (idcode_candidate env) cs' s1) = cs' \<and>
       (\<forall>(comb, s0, s0') \<in> set (evaluations (idcode_candidate env) cs' s1).
          new_events s0 s0' =
            [Configure (comb ! 0) OUT_PP, Configure (comb ! 1) OUT_PP,
             Configure (comb ! 2) IN] @
            script_trace (comb ! 1) (comb ! 2)
              (idcode_script (comb ! 0) (Some (last cs ! 1)))
              (samples (new_events s0 s0'))))) \<and>
   TDI (snd (idcode_search env self' s)) = TDI s \<and>
   (TDI s = None \<and>
    (\<forall>p\<in>set (pins_scope self'). accepts env p OUT_PP \<and> accepts env p IN) \<longrightarrow>
    (\<exists>cs' s2.
       candidates (pins_scope self') JTAG_PINS_IDCODE_COUNT = Inr cs' \<and>
       idcode_search env self' s = (Inr (), s2) \<and> TDI s2 = None \<and>
       map fst (evaluations (idcode_candidate env) cs' s) = cs' \<and>
       (\<forall>(comb, s0, s0') \<in> set (evaluations (idcode_candidate env) cs' s).
          new_events s0 s0' =
            [Configure (comb ! 0) OUT_PP, Configure (comb ! 1) OUT_PP,
             Configure (comb ! 2) IN] @
            script_trace (comb ! 1) (comb ! 2) (idcode_script (comb ! 0) None)
              (samples (new_events s0 s0'))))) \<and>
   take 32 (drop 9 (idcode_script m (Some i))) =
     replicate 31 [(m, False), (i, False)] @ [[(m, True), (i, False)]] \<and>
   take 32 (drop 9 (idcode_script m None)) = replicate 32 [(m, False)]"
proof (intro conjI impI)
  assume h: "distinct (pins_scope self) \<and> JTAG_PINS_BYPASS_COUNT \<le> length (pins_scope self) \<and>
    (\<forall>p\<in>set (pins_scope self) \<union> set (pins_scope self').
        accepts env p OUT_PP \<and> accepts env p IN)"
  then have acc: "\<forall>p\<in>set (pins_scope self). accepts env p OUT_PP \<and> accepts env p IN"
    and acc': "\<forall>p\<in>set (pins_scope self'). accepts env p OUT_PP \<and> accepts env p IN"
    by simp_all
  obtain cs where cs: "candidates (pins_scope self) JTAG_PINS_BYPASS_COUNT = Inr cs"
    by (rule candidates_total [of JTAG_PINS_BYPASS_COUNT "pins_scope self"])
      (simp add: JTAG_PINS_BYPASS_COUNT_def)
  have ne: "cs \<noteq> []"
    using h by (intro candidates_nonempty [OF _ _ _ cs]) (simp_all add: JTAG_PINS_BYPASS_COUNT_def)
  obtain s1 where s1: "bypass_search env self s = (Inr (), s1)" "TDI s1 = Some (last cs ! 1)"
    using bypass_search_final_TDI [OF cs ne acc, of s] by blast
  obtain cs' s2 where id:
    "candidates (pins_scope self') JTAG_PINS_IDCODE_COUNT = Inr cs'"
    "idcode_search env self' s1 = (Inr (), s2)" "TDI s2 = TDI s1"
    "map fst (evaluations (idcode_candidate env) cs' s1) = cs'"
    "\<forall>(comb, s0, s0') \<in> set (evaluations (idcode_candidate env) cs' s1).
        new_events s0 s0' =
          [Configure (comb ! 0) OUT_PP, Configure (comb ! 1) OUT_PP, Configure (comb ! 2) IN] @
          script_trace (comb ! 1) (comb ! 2) (idcode_script (comb ! 0) (TDI s1))
            (samples (new_events s0 s0'))"
    using idcode_search_scripts [OF acc', of s1] by (elim exE conjE) (rule that, assumption+)
  have tdi2: "TDI s2 = Some (last cs ! 1)"
    using id(3) s1(2) by simp
  have each: "\<forall>(comb, s0, s0') \<in> set (evaluations (idcode_candidate env) cs' s1).
        new_events s0 s0' =
          [Configure (comb ! 0) OUT_PP, Configure (comb ! 1) OUT_PP, Configure (comb ! 2) IN] @
          script_trace (comb ! 1) (comb ! 2) (idcode_script (comb ! 0) (Some (last cs ! 1)))
            (samples (new_events s0 s0'))"
    using id(5) unfolding s1(2) .
  show "\<exists>cs s1 cs' s2.
       candidates (pins_scope self) JTAG_PINS_BYPASS_COUNT = Inr cs \<and> cs \<noteq> [] \<and>
       bypass_search env self s = (Inr (), s1) \<and> TDI s1 = Some (last cs ! 1) \<and>
       candidates (pins_scope self') JTAG_PINS_IDCODE_COUNT = Inr cs' \<and>
       idcode_search env self' s1 = (Inr (), s2) \<and> TDI s2 = Some (last cs ! 1) \<and>
       map fst (evaluations (idcode_candidate env) cs' s1) = cs' \<and>
       (\<forall>(comb, s0, s0') \<in> set (evaluations (idcode_candidate env) cs' s1).
          new_events s0 s0' =
            [Configure (comb ! 0) OUT_PP, Configure (comb ! 1) OUT_PP,
             Configure (comb ! 2) IN] @
            script_trace (comb ! 1) (comb ! 2)
              (idcode_script (comb ! 0) (Some (last cs ! 1)))
              (samples (new_events s0 s0')))"
    by (rule exI [of _ cs], rule exI [of _ s1], rule exI [of _ cs'], rule exI [of _ s2])
      (intro conjI cs ne s1 id(1,2,4) tdi2 each)
next
  show "TDI (snd (idcode_search env self' s)) = TDI s"
    using keeps_TDI_idcode_search [of env self'] by (simp add: keeps_TDI_def)
next
  assume h: "TDI s = None \<and>
    (\<forall>p\<in>set (pins_scope self'). accepts env p OUT_PP \<and> accepts env p IN)"
  then have acc': "\<forall>p\<in>set (pins_scope self'). accepts env p OUT_PP \<and> accepts env p IN"
    by simp
  from idcode_search_scripts [OF acc', of s] h
  show "\<exists>cs' s2.
       candidates (pins_scope self') JTAG_PINS_IDCODE_COUNT = Inr cs' \<and>
       idcode_search env self' s = (Inr (), s2) \<and> TDI s2 = None \<and>
       map fst (evaluations (idcode_candidate env) cs' s) = cs' \<and>
       (\<forall>(comb, s0, s0') \<in> set (evaluations (idcode_candidate env) cs' s).
          new_events s0 s0' =
            [Configure (comb ! 0) OUT_PP, Configure (comb ! 1) OUT_PP,
             Configure (comb ! 2) IN] @
            script_trace (comb ! 1) (comb ! 2) (idcode_script (comb ! 0) None)
              (samples (new_events s0 s0')))"
    by simp
next
  show "take 32 (drop 9 (idcode_script m (Some i))) =
     replicate 31 [(m, False), (i, False)] @ [[(m, True), (i, False)]]"
    by (rule idcode_capture_scripts)
  show "take 32 (drop 9 (idcode_script m None)) = replicate 32 [(m, False)]"
    by (rule idcode_capture_scripts)
qed

theorem stale_tdi_reaches_idcode_search_witness:
  "distinct (pins_scope \<lparr>name = ''scan'', pins_scope = [1, 2, 3, 4::nat]\<rparr>) \<and>
   JTAG_PINS_BYPASS_COUNT \<le> length (pins_scope \<lparr>name = ''scan'', pins_scope = [1, 2, 3, 4::nat]\<rparr>) \<and>
   list_all (\<lambda>p. accepts quiet_board p OUT_PP \<and> accepts quiet_board p IN)
     (pins_scope \<lparr>name = ''scan'', pins_scope = [1, 2, 3, 4::nat]\<rparr>) \<and>
   TDI (fresh_module :: nat module_state) = None \<and>
   (\<exists>s1 s2.
      bypass_search quiet_board \<lparr>name = ''scan'', pins_scope = [1, 2, 3, 4]\<rparr> fresh_module =
        (Inr (), s1) \<and>
      TDI s1 = Some 3 \<and>
      idcode_search quiet_board \<lparr>name = ''scan'', pins_scope = [1, 2, 3, 4]\<rparr> s1 = (Inr (), s2) \<and>
      TDI s2 = Some 3) \<and>
   (\<exists>s2.
      idcode_search quiet_board \<lparr>name = ''scan'', pins_scope = [1, 2, 3, 4]\<rparr> fresh_module =
        (Inr (), s2) \<and>
      TDI s2 = None)"
proof -
  let ?self = "\<lparr>name = ''scan'', pins_scope = [1, 2, 3, 4::nat]\<rparr>"
  have d: "distinct (pins_scope ?self)" and l: "JTAG_PINS_BYPASS_COUNT \<le> length (pins_scope ?self)"
    by (simp_all add: JTAG_PINS_BYPASS_COUNT_def)
  have a: "\<forall>p\<in>set (pins_scope ?self) \<union> set (pins_scope ?self).
      accepts quiet_board p OUT_PP \<and> accepts quiet_board p IN"
    by (simp add: quiet_board_def)
  have a': "\<forall>p\<in>set (pins_scope ?self). accepts quiet_board p OUT_PP \<and> accepts quiet_board p IN"
    by (simp add: quiet_board_def)
  have n: "TDI (fresh_module :: nat module_state) = None"
    by (simp add: fresh_module_def)
  note t = stale_tdi_reaches_idcode_search [where self = ?self and self' = ?self
      and env = quiet_board and s = fresh_module]
  note t1 = t [THEN conjunct1, THEN mp, OF conjI [OF d conjI [OF l a]]]
  note t2 = t [THEN conjunct2, THEN conjunct2, THEN conjunct1, THEN mp, OF conjI [OF n a']]
  from t1 obtain cs s1 cs' s2 where
    cs: "candidates (pins_scope ?self) JTAG_PINS_BYPASS_COUNT = Inr cs"
    and r: "bypass_search quiet_board ?self fresh_module = (Inr (), s1)"
      "TDI s1 = Some (last cs ! 1)"
      "idcode_search quiet_board ?self s1 = (Inr (), s2)" "TDI s2 = Some (last cs ! 1)"
    by (elim exE conjE) (rule that, assumption+)
  have "last cs ! 1 = 3"
    using cs candidates_1234_arity_4 by simp
  then have first: "\<exists>s1 s2. bypass_search quiet_board ?self fresh_module = (Inr (), s1) \<and>
      TDI s1 = Some 3 \<and> idcode_search quiet_board ?self s1 = (Inr (), s2) \<and> TDI s2 = Some 3"
    using r by auto
  from t2 obtain cs2 s2' where
    "idcode_search quiet_board ?self fresh_module = (Inr (), s2')" "TDI s2' = None"
    by (elim exE conjE) (rule that, assumption+)
  then have second: "\<exists>s2. idcode_search quiet_board ?self fresh_module = (Inr (), s2) \<and>
      TDI s2 = None"
    by (intro exI [of _ s2'] conjI)
  have la: "list_all (\<lambda>p. accepts quiet_board p OUT_PP \<and> accepts quiet_board p IN)
     (pins_scope ?self)"
    using a' by (simp only: list_all_iff)
  show ?thesis
    by (intro conjI d l la n first second)
qed

lemma hd_evaluations:
  "hd (evaluations body (comb # rest) s) = (comb, s, snd (body comb s))"
  by (cases "body comb s") (auto split: sum.splits)

text \<open>
  C5, at a failing input. After \<open>bypass_search\<close> over the pins 1, 2, 3, 4 on the quiet
  board \<open>TDI\<close> is still bound to pin 3. The first candidate \<open>idcode_search\<close> then
  evaluates is TMS = 1, TCK = 2, TDO = 3; during its 32 capture clocks the level driven on
  the TMS pin is low 31 times and high on the last clock, and the zero payload is driven on
  pin 3, the stale TDI pin.
\<close>

theorem idcode_after_bypass_raises_tms:
  "(let s1 = snd (bypass_search quiet_board \<lparr>name = ''scan'', pins_scope = [1, 2, 3, 4]\<rparr>
                    fresh_module);
        s2 = snd (idcode_candidate quiet_board [1, 2, 3] s1)
    in TDI s1 = Some 3 \<and>
       hd (evaluations (idcode_candidate quiet_board)
            [[1, 2, 3], [1, 2, 4], [1, 3, 2], [1, 3, 4], [1, 4, 2], [1, 4, 3],
             [2, 1, 3], [2, 1, 4], [2, 3, 1], [2, 3, 4], [2, 4, 1], [2, 4, 3],
             [3, 1, 2], [3, 1, 4], [3, 2, 1], [3, 2, 4], [3, 4, 1], [3, 4, 2],
             [4, 1, 2], [4, 1, 3], [4, 2, 1], [4, 2, 3], [4, 3, 1], [4, 3, 2]] s1) =
         ([1, 2, 3], s1, s2) \<and>
       take 32 (drop 9 (driven 1 (new_events s1 s2))) = replicate 31 False @ [True] \<and>
       driven 3 (new_events s1 s2) = replicate 32 False)"
proof -
  let ?self = "\<lparr>name = ''scan'', pins_scope = [1, 2, 3, 4::nat]\<rparr>"
  define s1 where "s1 = snd (bypass_search quiet_board ?self fresh_module)"
  define s2 where "s2 = snd (idcode_candidate quiet_board [1, 2, 3] s1)"
  have a: "\<forall>p\<in>set (pins_scope ?self). accepts quiet_board p OUT_PP \<and> accepts quiet_board p IN"
    by (simp add: quiet_board_def)
  have cs: "candidates (pins_scope ?self) JTAG_PINS_BYPASS_COUNT =
      Inr (butlast (projr (candidates [1, 2, 3, 4::nat] JTAG_PINS_BYPASS_COUNT)) @ [[4, 3, 2, 1]])"
    using candidates_1234_arity_4 by simp
  from bypass_search_final_TDI [OF cs _ a, of fresh_module]
  have tdi: "TDI s1 = Some 3"
    by (auto simp: s1_def)
  have "accepts quiet_board 1 OUT_PP" "accepts quiet_board 2 OUT_PP" "accepts quiet_board 3 IN"
    by (simp_all add: quiet_board_def)
  then obtain t1 where t1: "idcode_candidate quiet_board [1, 2, 3] s1 = (Inr (), t1)"
    "new_events s1 t1 =
       [Configure 1 OUT_PP, Configure 2 OUT_PP, Configure 3 IN] @
       script_trace 2 3 (idcode_script 1 (TDI s1)) (samples (new_events s1 t1))"
    "length (samples (new_events s1 t1)) = 44"
    by (rule idcode_candidate_facts [of quiet_board 1 2 3 s1])
  have s2: "s2 = t1"
    using t1(1) by (simp add: s2_def)
  have new: "new_events s1 s2 =
       [Configure 1 OUT_PP, Configure 2 OUT_PP, Configure 3 IN] @
       script_trace 2 3 (idcode_script 1 (Some 3)) (samples (new_events s1 s2))"
    using t1(2) unfolding s2 tdi .
  have len: "length (samples (new_events s1 s2)) = 44"
    using t1(3) unfolding s2 .
  have d1: "driven 1 (new_events s1 s2) =
      driven 1 (script_trace (2::nat) 3 (idcode_script 1 (Some 3)) (samples (new_events s1 s2)))"
    by (subst new) simp
  have d3: "driven 3 (new_events s1 s2) =
      driven 3 (script_trace (2::nat) 3 (idcode_script 1 (Some 3)) (samples (new_events s1 s2)))"
    by (subst new) simp
  have tms: "take 32 (drop 9 (driven 1 (new_events s1 s2))) = replicate 31 False @ [True]"
    by (simp only: d1 driven_idcode_stale(1) [OF len])
  have pay: "driven 3 (new_events s1 s2) = replicate 32 False"
    by (simp only: d3 driven_idcode_stale(2) [OF len])
  have "hd (evaluations (idcode_candidate quiet_board)
            ([1, 2, 3] # [[1, 2, 4], [1, 3, 2], [1, 3, 4], [1, 4, 2], [1, 4, 3],
             [2, 1, 3], [2, 1, 4], [2, 3, 1], [2, 3, 4], [2, 4, 1], [2, 4, 3],
             [3, 1, 2], [3, 1, 4], [3, 2, 1], [3, 2, 4], [3, 4, 1], [3, 4, 2],
             [4, 1, 2], [4, 1, 3], [4, 2, 1], [4, 2, 3], [4, 3, 1], [4, 3, 2]]) s1) =
         ([1, 2, 3], s1, s2)"
    unfolding s2_def by (rule hd_evaluations)
  then show ?thesis
    using tdi tms pay unfolding Let_def s1_def [symmetric] s2_def [symmetric] by (intro conjI)
qed

end
